theory Spec2Isabelle
  imports Main
begin

section \<open>Python string primitives used by the pipeline\<close>

text \<open>
  Strings are lists of characters.  The functions below follow the semantics of the
  Python built-ins the module calls: \<^verbatim>\<open>str.rfind\<close> (index of the last occurrence,
  \<open>-1\<close> when there is none), slicing \<^verbatim>\<open>s[:k]\<close> and \<^verbatim>\<open>s[k:]\<close> (a negative bound counts
  from the end, bounds are clipped, slicing never raises) and \<^verbatim>\<open>str.upper\<close> on the
  ASCII letters.
\<close>

fun rfind :: "string \<Rightarrow> char \<Rightarrow> int" where
  "rfind [] c = - 1"
| "rfind (x # xs) c =
     (let r = rfind xs c
      in if 0 \<le> r then r + 1 else if x = c then 0 else - 1)"

definition slice_to :: "'a list \<Rightarrow> int \<Rightarrow> 'a list" where
  "slice_to s k = (if k < 0 then take (nat (int (length s) + k)) s else take (nat k) s)"

definition slice_from :: "'a list \<Rightarrow> int \<Rightarrow> 'a list" where
  "slice_from s k = (if k < 0 then drop (nat (int (length s) + k)) s else drop (nat k) s)"

text \<open>The case mapping of \<^verbatim>\<open>str.upper\<close> on ASCII: the 26 lower-case letters map to their
  capitals, every other character is left as it is.\<close>

definition upper_char :: "char \<Rightarrow> char" where
  "upper_char c =
     (case map_of (zip ''abcdefghijklmnopqrstuvwxyz'' ''ABCDEFGHIJKLMNOPQRSTUVWXYZ'') c of
        Some u \<Rightarrow> u
      | None \<Rightarrow> c)"

definition upper :: "string \<Rightarrow> string" where
  "upper s = map upper_char s"

section \<open>The \<^verbatim>\<open>os.path\<close> functions (POSIX flavour)\<close>

definition startswith_sep :: "string \<Rightarrow> bool" where
  "startswith_sep b = (case b of [] \<Rightarrow> False | x # _ \<Rightarrow> x = CHR ''/'')"

definition endswith_sep :: "string \<Rightarrow> bool" where
  "endswith_sep a = (case rev a of [] \<Rightarrow> False | x # _ \<Rightarrow> x = CHR ''/'')"

text \<open>\<^verbatim>\<open>head.rstrip(sep)\<close>: drop every trailing separator.\<close>

definition rstrip_sep :: "string \<Rightarrow> string" where
  "rstrip_sep s = rev (dropWhile (\<lambda>c. c = CHR ''/'') (rev s))"

text \<open>
  \<^verbatim>\<open>posixpath.split\<close>: the tail is everything after the last separator; the head is
  what precedes it, with trailing separators removed unless it consists of separators
  only.
\<close>

definition path_split :: "string \<Rightarrow> string \<times> string" where
  "path_split p =
     (let i = rfind p CHR ''/'' + 1;
          head = slice_to p i;
          tail = slice_from p i;
          head' = (if head \<noteq> [] \<and> head \<noteq> replicate (length head) CHR ''/''
                   then rstrip_sep head else head)
      in (head', tail))"

text \<open>
  \<^verbatim>\<open>posixpath.join\<close> with two arguments: an absolute second component replaces the
  first; otherwise the components are concatenated with exactly one separator between
  them unless the first is empty or already ends with one.
\<close>

definition path_join :: "string \<Rightarrow> string \<Rightarrow> string" where
  "path_join a b =
     (if startswith_sep b then b
      else if a = [] \<or> endswith_sep a then a @ b
      else a @ ''/'' @ b)"

text \<open>
  \<^verbatim>\<open>posixpath.splitext\<close> (\<^verbatim>\<open>genericpath._splitext\<close>).  The inner loop skips the
  leading dots of the last path component: the extension starts at the last dot only
  when some character between the last separator and that dot is not a dot.
\<close>

function skip_leading_dots :: "string \<Rightarrow> int \<Rightarrow> int \<Rightarrow> bool" where
  "skip_leading_dots p filenameIndex dotIndex =
     (if filenameIndex < dotIndex
      then (if slice_to (slice_from p filenameIndex) 1 \<noteq> ''.'' then True
            else skip_leading_dots p (filenameIndex + 1) dotIndex)
      else False)"
  by pat_completeness auto
termination
  by (relation "measure (\<lambda>(p, f, d). nat (d - f))") auto

declare skip_leading_dots.simps [simp del]

definition splitext :: "string \<Rightarrow> string \<times> string" where
  "splitext p =
     (let sepIndex = rfind p CHR ''/'';
          dotIndex = rfind p CHR ''.''
      in if dotIndex > sepIndex \<and> skip_leading_dots p (sepIndex + 1) dotIndex
         then (slice_to p dotIndex, slice_from p dotIndex)
         else (p, []))"

section \<open>Output naming: \<^verbatim>\<open>mk_filename\<close>\<close>

definition mk_filename :: "string option \<Rightarrow> string \<Rightarrow> string \<Rightarrow> string" where
  "mk_filename output_dir filename suffix =
     (let filename' = (case output_dir of
                         None \<Rightarrow> filename
                       | Some d \<Rightarrow> path_join d (snd (path_split filename)));
          (base, ext) = splitext filename'
      in slice_to base (rfind base CHR ''_'') @ ''_'' @ suffix @ ext)"


section \<open>Data model\<close>

text \<open>
  The association table: an ordered list of products, each with a name template and an
  ordered list of members; a member has an exposure type and an exposure file name.
\<close>

record member =
  exptype :: string
  expname :: string

record product =
  name :: string
  members :: "member list"

record association =
  products :: "product list"

text \<open>
  A data model carries the three arrays \<^verbatim>\<open>data\<close>, \<^verbatim>\<open>err\<close> and \<^verbatim>\<open>dq\<close>, its metadata
  attributes and its WCS.  For a cube the arrays are lists of planes (the leading
  dimension); for an image each array is one plane.
\<close>

record ('a, 'w) model =
  data :: 'a
  err :: 'a
  dq :: 'a
  meta :: "string \<rightharpoonup> string"
  wcs :: 'w

type_synonym ('p, 'w) cube = "('p list, 'w) model"
type_synonym ('p, 'w) image = "('p, 'w) model"

text \<open>
  What can be raised: \<^verbatim>\<open>IndexError\<close> by an index out of range in the module itself,
  and whatever a collaborator raises, named by its message.
\<close>

datatype error = IndexError | Raised string

text \<open>
  The models that \<^verbatim>\<open>process\<close> saves or closes, named by the variable that holds them
  and, inside a loop, by the iteration: every constructor call and every step call
  yields a model of its own.
\<close>

datatype obj =
    Psf_input nat
  | Psf_models
  | Psf_stack
  | Psf_aligned nat
  | Psf_sub nat
  | Result

text \<open>
  What a run does to the outside, in order: the cubes it opens, the models it closes and
  saves, and the steps it invokes with their arguments.  Log messages are not recorded.
\<close>

datatype ('m, 'p, 'w) event =
    Open_cube string
  | Close obj
  | Save obj string
  | Stack_refs "'m list"
  | Align_refs string 'm
  | Klip string 'm
  | Outlier_detection "('p, 'w) image list"
  | Resample "('p, 'w) image list"

text \<open>
  The collaborators of the pipeline, none of which is defined in the module: the five
  steps, the constructor that opens a cube from a file, \<^verbatim>\<open>save\<close>, \<^verbatim>\<open>str.format\<close> applied
  to the product's name template, and the state of a freshly constructed image model.
  Each call either returns or raises; \<^verbatim>\<open>process\<close> catches nothing.
\<close>

record ('m, 'p, 'w) env =
  output_dir :: "string option"
  format_name :: "string \<Rightarrow> string \<Rightarrow> error + string"
  open_cube :: "string \<Rightarrow> error + 'm"
  save :: "string \<Rightarrow> error + unit"
  stack_refs :: "'m list \<Rightarrow> error + 'm"
  align_refs :: "string \<Rightarrow> 'm \<Rightarrow> error + 'm"
  klip :: "string \<Rightarrow> 'm \<Rightarrow> error + ('p, 'w) cube"
  outlier_detection :: "('p, 'w) image list \<Rightarrow> error + ('p, 'w) image list"
  resample :: "('p, 'w) image list \<Rightarrow> error + 'm"
  image_meta :: "string \<rightharpoonup> string"
  image_wcs :: 'w

section \<open>Runs: a trace of events and a result\<close>

text \<open>
  A run is the list of events it produced and either the error that ended it or its
  value.  Sequencing stops at the first error and keeps the events produced so far.
\<close>

type_synonym ('e, 'a) run = "'e list \<times> (error + 'a)"

definition bind_run :: "('e, 'a) run \<Rightarrow> ('a \<Rightarrow> ('e, 'b) run) \<Rightarrow> ('e, 'b) run" where
  "bind_run m f =
     (case m of
        (t, Inl e) \<Rightarrow> (t, Inl e)
      | (t, Inr a) \<Rightarrow> (case f a of (t', r) \<Rightarrow> (t @ t', r)))"

definition call :: "'e \<Rightarrow> error + 'a \<Rightarrow> ('e, 'a) run" where
  "call ev r = ([ev], r)"

definition emit :: "'e \<Rightarrow> ('e, unit) run" where
  "emit ev = ([ev], Inr ())"

definition silent :: "error + 'a \<Rightarrow> ('e, 'a) run" where
  "silent r = ([], r)"

definition after :: "'e list \<Rightarrow> ('e, 'a) run \<Rightarrow> ('e, 'a) run" where
  "after t m = (t @ fst m, snd m)"

section \<open>\<^verbatim>\<open>Coron3Pipeline.process\<close>\<close>

text \<open>
  The model starts from the loaded association (lines 51--52 read it from the input
  file) and follows the method statement by statement.
\<close>

subsection \<open>Partitioning the members\<close>

text \<open>Lines 58--68: the loop over the members, with its two independent tests.\<close>

fun partition_members :: "member list \<Rightarrow> string list \<Rightarrow> string list \<Rightarrow> string list \<times> string list" where
  "partition_members [] psf_files targ_files = (psf_files, targ_files)"
| "partition_members (member # rest) psf_files targ_files =
     (let psf_files' = (if upper (exptype member) = ''PSF''
                        then psf_files @ [expname member] else psf_files);
          targ_files' = (if upper (exptype member) = ''SCIENCE''
                         then targ_files @ [expname member] else targ_files)
      in partition_members rest psf_files' targ_files')"

subsection \<open>Assembling the PSF inputs\<close>

text \<open>Lines 82--86: each PSF file is opened, appended to the container and closed.\<close>

fun load_psfs :: "('m, 'p, 'w) env \<Rightarrow> string list \<Rightarrow> nat \<Rightarrow> 'm list
    \<Rightarrow> (('m, 'p, 'w) event, 'm list) run" where
  "load_psfs env [] i psf_models = ([], Inr psf_models)"
| "load_psfs env (f # fs) i psf_models =
     (case open_cube env f of
        Inl e \<Rightarrow> ([Open_cube f], Inl e)
      | Inr input \<Rightarrow>
          after [Open_cube f, Close (Psf_input i)]
            (load_psfs env fs (Suc i) (psf_models @ [input])))"

subsection \<open>Splitting a subtraction result into planes\<close>

text \<open>
  Lines 128--134.  The loop runs over the leading dimension of \<^verbatim>\<open>data\<close> and indexes
  \<^verbatim>\<open>err\<close> and \<^verbatim>\<open>dq\<close> with the same index; an index out of range raises.
\<close>

definition getitem :: "'a list \<Rightarrow> nat \<Rightarrow> error + 'a" where
  "getitem xs i = (if i < length xs then Inr (xs ! i) else Inl IndexError)"

text \<open>
  Modelled from the spec: \<^verbatim>\<open>DataModel.update\<close> is defined outside the module; it copies
  all metadata attributes of the source model into the receiving model (the WCS is not
  among them, which is why \<^verbatim>\<open>process\<close> assigns it separately).
\<close>

definition update :: "('a, 'w) model \<Rightarrow> ('b, 'w) model \<Rightarrow> ('a, 'w) model" where
  "update img src = img\<lparr>meta := meta img ++ meta src\<rparr>"

definition make_image :: "('m, 'p, 'w) env \<Rightarrow> ('p, 'w) cube \<Rightarrow> nat \<Rightarrow> error + ('p, 'w) image" where
  "make_image env psf_sub i =
     (case getitem (data psf_sub) i of Inl e \<Rightarrow> Inl e | Inr d \<Rightarrow>
      case getitem (err psf_sub) i of Inl e \<Rightarrow> Inl e | Inr r \<Rightarrow>
      case getitem (dq psf_sub) i of Inl e \<Rightarrow> Inl e | Inr q \<Rightarrow>
        (let img = \<lparr>data = d, err = r, dq = q, meta = image_meta env, wcs = image_wcs env\<rparr>;
             img = update img psf_sub;
             img = img\<lparr>wcs := wcs psf_sub\<rparr>
         in Inr img))"

function split_planes :: "('m, 'p, 'w) env \<Rightarrow> ('p, 'w) cube \<Rightarrow> nat \<Rightarrow> ('p, 'w) image list
    \<Rightarrow> error + ('p, 'w) image list" where
  "split_planes env psf_sub i target_models =
     (if i < length (data psf_sub)
      then (case make_image env psf_sub i of
              Inl e \<Rightarrow> Inl e
            | Inr img \<Rightarrow> split_planes env psf_sub (i + 1) (target_models @ [img]))
      else Inr target_models)"
  by pat_completeness auto
termination
  by (relation "measure (\<lambda>(env, psf_sub, i, target_models). length (data psf_sub) - i)") auto

declare split_planes.simps [simp del]

subsection \<open>One iteration of the target loop\<close>

text \<open>
  Lines 105--137: align, save, subtract, release the aligned PSF, save, split, and run
  outlier detection on the images of this target.
\<close>

definition branch :: "('m, 'p, 'w) env \<Rightarrow> 'm \<Rightarrow> nat \<Rightarrow> string
    \<Rightarrow> (('m, 'p, 'w) event, ('p, 'w) image list) run" where
  "branch env psf_stack i target_file =
     bind_run (call (Align_refs target_file psf_stack) (align_refs env target_file psf_stack))
       (\<lambda>psf_aligned.
     let filename = mk_filename (output_dir env) target_file ''psfalign'' in
     bind_run (call (Save (Psf_aligned i) filename) (save env filename)) (\<lambda>_.
     bind_run (call (Klip target_file psf_aligned) (klip env target_file psf_aligned))
       (\<lambda>psf_sub.
     bind_run (emit (Close (Psf_aligned i))) (\<lambda>_.
     let filename = mk_filename (output_dir env) target_file ''psfsub'' in
     bind_run (call (Save (Psf_sub i) filename) (save env filename)) (\<lambda>_.
     bind_run (silent (split_planes env psf_sub 0 [])) (\<lambda>target_models.
     call (Outlier_detection target_models) (outlier_detection env target_models)))))))"

text \<open>Lines 102--141: the loop over the targets, appending what each iteration returns.\<close>

fun targets_loop :: "('m, 'p, 'w) env \<Rightarrow> 'm \<Rightarrow> string list \<Rightarrow> nat \<Rightarrow> ('p, 'w) image list
    \<Rightarrow> (('m, 'p, 'w) event, ('p, 'w) image list) run" where
  "targets_loop env psf_stack [] i resample_input = ([], Inr resample_input)"
| "targets_loop env psf_stack (target_file # rest) i resample_input =
     (case branch env psf_stack i target_file of
        (t, Inl e) \<Rightarrow> (t, Inl e)
      | (t, Inr target_models) \<Rightarrow>
          after t (targets_loop env psf_stack rest (Suc i) (resample_input @ target_models)))"

subsection \<open>The whole run\<close>

text \<open>
  Lines 94--96 and 147--149: the formatted product name, joined to the output directory
  when there is one.
\<close>

definition rooted :: "string option \<Rightarrow> string \<Rightarrow> string" where
  "rooted dir output_file =
     (case dir of None \<Rightarrow> output_file | Some d \<Rightarrow> path_join d output_file)"

text \<open>
  Lines 55--157.  The first product is \<^verbatim>\<open>asn['products'][0]\<close>, which raises on an empty
  list; the two emptiness tests return early; then come the stack, the target loop,
  \<^verbatim>\<open>resample\<close> and the final save and release.
\<close>

definition process :: "('m, 'p, 'w) env \<Rightarrow> association \<Rightarrow> (('m, 'p, 'w) event, unit) run" where
  "process env asn =
     (case products asn of
        [] \<Rightarrow> ([], Inl IndexError)
      | prd # _ \<Rightarrow>
          (case partition_members (members prd) [] [] of (psf_files, targ_files) \<Rightarrow>
             if length psf_files = 0 then ([], Inr ())
             else if length targ_files = 0 then ([], Inr ())
             else
               bind_run (load_psfs env psf_files 0 []) (\<lambda>psf_models.
               bind_run (call (Stack_refs psf_models) (stack_refs env psf_models)) (\<lambda>psf_stack.
               bind_run (emit (Close Psf_models)) (\<lambda>_.
               bind_run (silent (format_name env (name prd) ''psfstack'')) (\<lambda>output_file.
               let output_file = rooted (output_dir env) output_file in
               bind_run (call (Save Psf_stack output_file) (save env output_file)) (\<lambda>_.
               bind_run (targets_loop env psf_stack targ_files 0 []) (\<lambda>resample_input.
               bind_run (call (Resample resample_input) (resample env resample_input)) (\<lambda>result.
               bind_run (silent (format_name env (name prd) ''coroncmb'')) (\<lambda>output_file.
               let output_file = rooted (output_dir env) output_file in
               bind_run (call (Save Result output_file) (save env output_file)) (\<lambda>_.
               emit (Close Result))))))))))))"


section \<open>Auxiliary notions for the path lemmas\<close>

text \<open>A directory prefix is empty or ends with the separator.\<close>

definition dir_prefix :: "string \<Rightarrow> bool" where
  "dir_prefix D \<longleftrightarrow> (D = [] \<or> last D = CHR ''/'')"

text \<open>The first argument of \<^verbatim>\<open>os.path.join\<close> as it stands in front of a relative second
  argument.\<close>

definition join_dir :: "string \<Rightarrow> string" where
  "join_dir d = (if d = [] \<or> endswith_sep d then d else d @ ''/'')"

section \<open>Reading a trace\<close>

text \<open>The saves, the releases and the step invocations of a trace, in order.\<close>

fun saved :: "('m, 'p, 'w) event \<Rightarrow> (obj \<times> string) list" where
  "saved (Save x p) = [(x, p)]"
| "saved _ = []"

fun closed :: "('m, 'p, 'w) event \<Rightarrow> obj list" where
  "closed (Close x) = [x]"
| "closed _ = []"

fun klip_arg :: "('m, 'p, 'w) event \<Rightarrow> (string \<times> 'm) list" where
  "klip_arg (Klip tf a) = [(tf, a)]"
| "klip_arg _ = []"

fun outlier_arg :: "('m, 'p, 'w) event \<Rightarrow> ('p, 'w) image list list" where
  "outlier_arg (Outlier_detection ims) = [ims]"
| "outlier_arg _ = []"

fun resample_arg :: "('m, 'p, 'w) event \<Rightarrow> ('p, 'w) image list list" where
  "resample_arg (Resample ims) = [ims]"
| "resample_arg _ = []"

definition saves :: "('m, 'p, 'w) event list \<Rightarrow> (obj \<times> string) list" where
  "saves tr = concat (map saved tr)"

definition closes :: "('m, 'p, 'w) event list \<Rightarrow> obj list" where
  "closes tr = concat (map closed tr)"

definition klip_calls :: "('m, 'p, 'w) event list \<Rightarrow> (string \<times> 'm) list" where
  "klip_calls tr = concat (map klip_arg tr)"

definition outlier_calls :: "('m, 'p, 'w) event list \<Rightarrow> ('p, 'w) image list list" where
  "outlier_calls tr = concat (map outlier_arg tr)"

definition resample_calls :: "('m, 'p, 'w) event list \<Rightarrow> ('p, 'w) image list list" where
  "resample_calls tr = concat (map resample_arg tr)"

section \<open>Runs in which every collaborator returns\<close>

text \<open>
  No collaborator raises, and the cubes that \<^verbatim>\<open>klip\<close> returns have an \<^verbatim>\<open>err\<close> and a
  \<^verbatim>\<open>dq\<close> plane for every \<^verbatim>\<open>data\<close> plane.
\<close>

definition collaborators_return :: "('m, 'p, 'w) env \<Rightarrow> bool" where
  "collaborators_return env \<longleftrightarrow>
     (\<forall>t p. \<not> isl (format_name env t p)) \<and>
     (\<forall>f. \<not> isl (open_cube env f)) \<and>
     (\<forall>p. \<not> isl (save env p)) \<and>
     (\<forall>ms. \<not> isl (stack_refs env ms)) \<and>
     (\<forall>tf s. \<not> isl (align_refs env tf s)) \<and>
     (\<forall>tf a. \<not> isl (klip env tf a)) \<and>
     (\<forall>tf a. length (data (projr (klip env tf a))) \<le> length (err (projr (klip env tf a)))) \<and>
     (\<forall>tf a. length (data (projr (klip env tf a))) \<le> length (dq (projr (klip env tf a)))) \<and>
     (\<forall>ims. \<not> isl (outlier_detection env ims)) \<and>
     (\<forall>ims. \<not> isl (resample env ims))"

text \<open>The image that the split loop builds from plane \<open>i\<close> of a subtraction result.\<close>

definition plane_image :: "('m, 'p, 'w) env \<Rightarrow> ('p, 'w) cube \<Rightarrow> nat \<Rightarrow> ('p, 'w) image" where
  "plane_image env psf_sub i =
     \<lparr>data = data psf_sub ! i, err = err psf_sub ! i, dq = dq psf_sub ! i,
      meta = image_meta env ++ meta psf_sub, wcs = wcs psf_sub\<rparr>"

text \<open>What one iteration of the target loop does and returns when every call returns.\<close>

definition aligned_of :: "('m, 'p, 'w) env \<Rightarrow> 'm \<Rightarrow> string \<Rightarrow> 'm" where
  "aligned_of env psf_stack tf = projr (align_refs env tf psf_stack)"

definition sub_of :: "('m, 'p, 'w) env \<Rightarrow> 'm \<Rightarrow> string \<Rightarrow> ('p, 'w) cube" where
  "sub_of env psf_stack tf = projr (klip env tf (aligned_of env psf_stack tf))"

definition planes_of :: "('m, 'p, 'w) env \<Rightarrow> 'm \<Rightarrow> string \<Rightarrow> ('p, 'w) image list" where
  "planes_of env psf_stack tf = projr (split_planes env (sub_of env psf_stack tf) 0 [])"

definition branch_result :: "('m, 'p, 'w) env \<Rightarrow> 'm \<Rightarrow> string \<Rightarrow> ('p, 'w) image list" where
  "branch_result env psf_stack tf = projr (outlier_detection env (planes_of env psf_stack tf))"

definition branch_events :: "('m, 'p, 'w) env \<Rightarrow> 'm \<Rightarrow> nat \<times> string \<Rightarrow> ('m, 'p, 'w) event list" where
  "branch_events env psf_stack jt =
     (case jt of (j, tf) \<Rightarrow>
        [Align_refs tf psf_stack,
         Save (Psf_aligned j) (mk_filename (output_dir env) tf ''psfalign''),
         Klip tf (aligned_of env psf_stack tf),
         Close (Psf_aligned j),
         Save (Psf_sub j) (mk_filename (output_dir env) tf ''psfsub''),
         Outlier_detection (planes_of env psf_stack tf)])"

definition psf_events :: "nat \<times> string \<Rightarrow> ('m, 'p, 'w) event list" where
  "psf_events jf = (case jf of (j, f) \<Rightarrow> [Open_cube f, Close (Psf_input j)])"

definition stack_of :: "('m, 'p, 'w) env \<Rightarrow> string list \<Rightarrow> 'm" where
  "stack_of env psf_files = projr (stack_refs env (map (\<lambda>f. projr (open_cube env f)) psf_files))"

definition product_file :: "('m, 'p, 'w) env \<Rightarrow> product \<Rightarrow> string \<Rightarrow> string" where
  "product_file env prd product_type =
     rooted (output_dir env) (projr (format_name env (name prd) product_type))"

definition resample_input_of :: "('m, 'p, 'w) env \<Rightarrow> string list \<Rightarrow> string list \<Rightarrow> ('p, 'w) image list" where
  "resample_input_of env psf_files targ_files =
     concat (map (branch_result env (stack_of env psf_files)) targ_files)"

definition loop_events :: "('m, 'p, 'w) env \<Rightarrow> string list \<Rightarrow> string list \<Rightarrow> ('m, 'p, 'w) event list" where
  "loop_events env psf_files targ_files =
     concat (map (branch_events env (stack_of env psf_files)) (enumerate 0 targ_files))"

definition run_events :: "('m, 'p, 'w) env \<Rightarrow> product \<Rightarrow> string list \<Rightarrow> string list
    \<Rightarrow> ('m, 'p, 'w) event list" where
  "run_events env prd psf_files targ_files =
     concat (map psf_events (enumerate 0 psf_files))
     @ [Stack_refs (map (\<lambda>f. projr (open_cube env f)) psf_files),
        Close Psf_models,
        Save Psf_stack (product_file env prd ''psfstack'')]
     @ loop_events env psf_files targ_files
     @ [Resample (resample_input_of env psf_files targ_files),
        Save Result (product_file env prd ''coroncmb''),
        Close Result]"

text \<open>The part of a successful run that precedes the call of \<^verbatim>\<open>resample\<close>.\<close>

definition before_resample :: "('m, 'p, 'w) env \<Rightarrow> product \<Rightarrow> string list \<Rightarrow> string list
    \<Rightarrow> ('m, 'p, 'w) event list" where
  "before_resample env prd psf_files targ_files =
     concat (map psf_events (enumerate 0 psf_files))
     @ [Stack_refs (map (\<lambda>f. projr (open_cube env f)) psf_files),
        Close Psf_models,
        Save Psf_stack (product_file env prd ''psfstack'')]
     @ loop_events env psf_files targ_files"

section \<open>A sample association and sample collaborators\<close>

definition sample_cube :: "(nat, nat) cube" where
  "sample_cube = \<lparr>data = [1, 2], err = [3, 4], dq = [5, 6],
                  meta = [''instrument'' \<mapsto> ''NIRCAM''], wcs = 7\<rparr>"

definition sample_env :: "(string, nat, nat) env" where
  "sample_env =
     \<lparr>output_dir = Some ''/tmp/out'',
      format_name = (\<lambda>t p. Inr (t @ ''_'' @ p @ ''.fits'')),
      open_cube = (\<lambda>f. Inr f),
      save = (\<lambda>p. Inr ()),
      stack_refs = (\<lambda>ms. Inr ''stack''),
      align_refs = (\<lambda>tf s. Inr (''aligned:'' @ tf)),
      klip = (\<lambda>tf a. Inr sample_cube),
      outlier_detection = (\<lambda>ims. Inr ims),
      resample = (\<lambda>ims. Inr ''combined''),
      image_meta = Map.empty,
      image_wcs = 0\<rparr>"

definition sample_product :: product where
  "sample_product =
     \<lparr>name = ''jw001'',
      members = [\<lparr>exptype = ''psf'', expname = ''ref_calints.fits''\<rparr>,
                 \<lparr>exptype = ''science'', expname = ''a/t1_calints.fits''\<rparr>,
                 \<lparr>exptype = ''other'', expname = ''x.fits''\<rparr>,
                 \<lparr>exptype = ''Science'', expname = ''t2_calints.fits''\<rparr>]\<rparr>"

definition sample_asn :: association where
  "sample_asn = \<lparr>products = [sample_product]\<rparr>"

section \<open>The partition as the specification words it\<close>

text \<open>
  Two characters are the same letter when they are equal or one is the capital of the
  other; two tags are the same up to case when they have the same length and agree
  letter by letter.  This is stated from the alphabet, not from \<^verbatim>\<open>str.upper\<close>.  The
  specification's partition keeps, in member order, the file names of the members
  tagged PSF and of those tagged SCIENCE, and drops every other member.
\<close>

definition same_letter :: "char \<Rightarrow> char \<Rightarrow> bool" where
  "same_letter a b \<longleftrightarrow>
     a = b
     \<or> (a, b) \<in> set (zip ''abcdefghijklmnopqrstuvwxyz'' ''ABCDEFGHIJKLMNOPQRSTUVWXYZ'')
     \<or> (b, a) \<in> set (zip ''abcdefghijklmnopqrstuvwxyz'' ''ABCDEFGHIJKLMNOPQRSTUVWXYZ'')"

definition same_ignoring_case :: "string \<Rightarrow> string \<Rightarrow> bool" where
  "same_ignoring_case s t \<longleftrightarrow> list_all2 same_letter s t"

definition partition_spec :: "member list \<Rightarrow> string list \<times> string list" where
  "partition_spec ms =
     (map expname (filter (\<lambda>m. same_ignoring_case (exptype m) ''PSF'') ms),
      map expname (filter (\<lambda>m. same_ignoring_case (exptype m) ''SCIENCE'') ms))"

text \<open>An association without PSF members.\<close>

definition science_only_asn :: association where
  "science_only_asn =
     \<lparr>products = [\<lparr>name = ''jw002'',
                    members = [\<lparr>exptype = ''SCIENCE'', expname = ''t1_calints.fits''\<rparr>]\<rparr>]\<rparr>"



text \<open>An association without SCIENCE members.\<close>

definition psf_only_asn :: association where
  "psf_only_asn =
     \<lparr>products = [\<lparr>name = ''jw004'',
                    members = [\<lparr>exptype = ''psf'', expname = ''ref_calints.fits''\<rparr>]\<rparr>]\<rparr>"

text \<open>Collaborators of which \<^verbatim>\<open>klip\<close> raises, and a cube with a missing \<^verbatim>\<open>err\<close> plane.\<close>

definition failing_klip_env :: "(string, nat, nat) env" where
  "failing_klip_env = sample_env\<lparr>klip := (\<lambda>tf a. Inl (Raised ''klip failed''))\<rparr>"

definition short_err_cube :: "(nat, nat) cube" where
  "short_err_cube = sample_cube\<lparr>err := [3]\<rparr>"




section \<open>Facts about the string and path functions\<close>

lemma rfind_notin: "c \<notin> set s \<Longrightarrow> rfind s c = - 1"
  by (induction s) (auto simp: Let_def)

lemma rfind_last: "c \<notin> set t \<Longrightarrow> rfind (s @ c # t) c = int (length s)"
  by (induction s) (auto simp: Let_def rfind_notin)

lemma slice_to_len [simp]: "slice_to (a @ b) (int (length a)) = a"
  by (simp add: slice_to_def)

lemma slice_from_len [simp]: "slice_from (a @ b) (int (length a)) = b"
  by (simp add: slice_from_def)

lemma slice_to_minus1: "slice_to s (- 1) = butlast s"
  by (simp add: slice_to_def butlast_conv_take nat_diff_distrib')

lemma skip_dots_iff:
  "skip_leading_dots (a @ u @ r) (int (length a)) (int (length a + length u))
     \<longleftrightarrow> (\<exists>x \<in> set u. x \<noteq> CHR ''.'')"
proof (induction u arbitrary: a)
  case Nil
  show ?case by (simp add: skip_leading_dots.simps)
next
  case (Cons x u)
  have "skip_leading_dots ((a @ [x]) @ u @ r) (int (length (a @ [x]))) (int (length (a @ [x]) + length u))
     \<longleftrightarrow> (\<exists>x \<in> set u. x \<noteq> CHR ''.'')"
    by (rule Cons.IH)
  then have IH: "skip_leading_dots (a @ x # u @ r) (int (length a) + 1) (int (length a) + 1 + int (length u))
     \<longleftrightarrow> (\<exists>x \<in> set u. x \<noteq> CHR ''.'')"
    by (simp add: algebra_simps)
  have sl: "slice_to (slice_from (a @ x # u @ r) (int (length a))) 1 = [x]"
    using slice_from_len[of a "x # u @ r"] by (simp add: slice_to_def)
  show ?case
    apply (subst skip_leading_dots.simps)
    using IH sl by (auto simp: algebra_simps)
qed

lemma rfind_lt: "rfind s c < int (length s)"
  by (induction s) (auto simp: Let_def)

lemma rfind_append_notin: "c \<notin> set t \<Longrightarrow> rfind (s @ t) c = rfind s c"
  by (induction s) (auto simp: Let_def rfind_notin)

lemma rfind_sep_dir:
  assumes "dir_prefix D" "CHR ''/'' \<notin> set n"
  shows "rfind (D @ n) CHR ''/'' + 1 = int (length D)"
proof (cases "D = []")
  case True
  with assms show ?thesis by (simp add: rfind_notin)
next
  case False
  with assms obtain D' where D: "D = D' @ [CHR ''/'']"
    unfolding dir_prefix_def by (metis append_butlast_last_id)
  have "rfind (D' @ CHR ''/'' # n) CHR ''/'' = int (length D')"
    using assms(2) by (rule rfind_last)
  with D show ?thesis by simp
qed

lemma rfind_dot_dir:
  assumes "dir_prefix D" "CHR ''/'' \<notin> set n" "CHR ''.'' \<notin> set n"
  shows "rfind (D @ n) CHR ''.'' \<le> rfind (D @ n) CHR ''/''"
proof -
  have "rfind (D @ n) CHR ''.'' = rfind D CHR ''.''"
    using assms(3) by (rule rfind_append_notin)
  moreover have "rfind D CHR ''.'' + 1 \<le> int (length D)"
  proof (cases "D = []")
    case True then show ?thesis by simp
  next
    case False
    with assms obtain D' where D: "D = D' @ [CHR ''/'']"
      unfolding dir_prefix_def by (metis append_butlast_last_id)
    have "rfind (D' @ [CHR ''/'']) CHR ''.'' = rfind D' CHR ''.''"
      by (rule rfind_append_notin) simp
    with rfind_lt[of D' "CHR ''.''"] D show ?thesis by simp
  qed
  ultimately show ?thesis using rfind_sep_dir[OF assms(1,2)] by simp
qed
lemma splitext_ext:
  assumes "dir_prefix D" "CHR ''/'' \<notin> set u" "CHR ''/'' \<notin> set e" "CHR ''.'' \<notin> set e"
    and "\<exists>x \<in> set u. x \<noteq> CHR ''.''"
  shows "splitext (D @ u @ CHR ''.'' # e) = (D @ u, CHR ''.'' # e)"
proof -
  have sep: "rfind (D @ u @ CHR ''.'' # e) CHR ''/'' + 1 = int (length D)"
    using assms by (intro rfind_sep_dir) auto
  have dot: "rfind (D @ u @ CHR ''.'' # e) CHR ''.'' = int (length (D @ u))"
    using rfind_last[of "CHR ''.''" e "D @ u"] assms(4) by simp
  have skip: "skip_leading_dots (D @ u @ CHR ''.'' # e) (int (length D)) (int (length D + length u))"
    using skip_dots_iff[of D u "CHR ''.'' # e"] assms(5) by simp
  have st: "slice_to (D @ u @ CHR ''.'' # e) (int (length (D @ u))) = D @ u"
    using slice_to_len[of "D @ u" "CHR ''.'' # e"] by simp
  have sf: "slice_from (D @ u @ CHR ''.'' # e) (int (length (D @ u))) = CHR ''.'' # e"
    using slice_from_len[of "D @ u" "CHR ''.'' # e"] by simp
  from sep have sep': "rfind (D @ u @ CHR ''.'' # e) CHR ''/'' = int (length D) - 1" by simp
  show ?thesis
    unfolding splitext_def Let_def dot sep'
    using skip st sf by simp
qed
lemma splitext_noext:
  assumes "dir_prefix D" "CHR ''/'' \<notin> set r" "CHR ''.'' \<notin> set r"
  shows "splitext (D @ replicate k CHR ''.'' @ r) = (D @ replicate k CHR ''.'' @ r, [])"
proof (cases k)
  case 0
  have "rfind (D @ r) CHR ''.'' \<le> rfind (D @ r) CHR ''/''"
    using assms by (rule rfind_dot_dir)
  with 0 show ?thesis by (simp add: splitext_def Let_def)
next
  case (Suc j)
  let ?u = "replicate j CHR ''.''"
  let ?p = "D @ ?u @ CHR ''.'' # r"
  have p: "D @ replicate k CHR ''.'' @ r = ?p"
    using Suc by (simp add: replicate_append_same)
  have dot: "rfind ?p CHR ''.'' = int (length D + length ?u)"
    using rfind_last[of "CHR ''.''" r "D @ ?u"] assms(3) by simp
  have sep: "rfind ?p CHR ''/'' + 1 = int (length D)"
    using assms by (intro rfind_sep_dir) auto
  have skip: "\<not> skip_leading_dots ?p (int (length D)) (int (length D + length ?u))"
    using skip_dots_iff[of D ?u "CHR ''.'' # r"] by simp
  from sep have sep': "rfind ?p CHR ''/'' = int (length D) - 1" by simp
  show ?thesis
    unfolding p splitext_def Let_def dot sep'
    using skip by simp
qed
lemma dots_prefix:
  "replicate k CHR ''.'' @ r = a @ CHR ''_'' # b \<Longrightarrow>
   \<exists>a'. a = replicate k CHR ''.'' @ a' \<and> r = a' @ CHR ''_'' # b"
proof (induction k arbitrary: a)
  case 0
  then show ?case by simp
next
  case (Suc k)
  show ?case
  proof (cases a)
    case Nil
    with Suc.prems show ?thesis by simp
  next
    case (Cons x a2)
    with Suc.prems have x: "x = CHR ''.''" and eq: "replicate k CHR ''.'' @ r = a2 @ CHR ''_'' # b"
      by auto
    from Suc.IH[OF eq] obtain a' where "a2 = replicate k CHR ''.'' @ a'" "r = a' @ CHR ''_'' # b"
      by blast
    with Cons x show ?thesis by simp
  qed
qed
lemma leading_dots:
  "\<exists>k r. n = replicate k CHR ''.'' @ r \<and> (r = [] \<or> hd r \<noteq> CHR ''.'')"
proof (induction n)
  case Nil
  show ?case by simp
next
  case (Cons x n)
  show ?case
  proof (cases "x = CHR ''.''")
    case True
    from Cons.IH obtain k r where "n = replicate k CHR ''.'' @ r" "r = [] \<or> hd r \<noteq> CHR ''.''"
      by blast
    with True have "x # n = replicate (Suc k) CHR ''.'' @ r \<and> (r = [] \<or> hd r \<noteq> CHR ''.'')"
      by simp
    then show ?thesis by blast
  next
    case False
    then have "x # n = replicate 0 CHR ''.'' @ (x # n) \<and> (x # n = [] \<or> hd (x # n) \<noteq> CHR ''.'')"
      by simp
    then show ?thesis by blast
  qed
qed

lemma component_cases:
  obtains (ext) u e where "n = u @ CHR ''.'' # e" "CHR ''.'' \<notin> set e" "\<exists>x \<in> set u. x \<noteq> CHR ''.''"
  | (noext) k r where "n = replicate k CHR ''.'' @ r" "CHR ''.'' \<notin> set r"
proof -
  from leading_dots[of n] obtain k r where n: "n = replicate k CHR ''.'' @ r"
    and hdr: "r = [] \<or> hd r \<noteq> CHR ''.''"
    by blast
  show ?thesis
  proof (cases "CHR ''.'' \<in> set r")
    case False
    with n show ?thesis by (rule noext)
  next
    case True
    then obtain u' e where r: "r = u' @ CHR ''.'' # e" "CHR ''.'' \<notin> set e"
      by (meson split_list_last)
    have u': "u' \<noteq> [] \<and> hd u' \<noteq> CHR ''.''"
    proof (cases u')
      case Nil
      with r(1) hdr show ?thesis by simp
    next
      case (Cons y ys)
      with r(1) hdr show ?thesis by simp
    qed
    then have "hd u' \<in> set (replicate k CHR ''.'' @ u')" by simp
    with u' have nd: "\<exists>x \<in> set (replicate k CHR ''.'' @ u'). x \<noteq> CHR ''.''" by blast
    have "n = (replicate k CHR ''.'' @ u') @ CHR ''.'' # e" using n r(1) by simp
    then show ?thesis using r(2) nd by (rule ext)
  qed
qed
lemma dir_prefix_Nil: "dir_prefix []"
  by (simp add: dir_prefix_def)

lemma splitext_ext0:
  assumes "CHR ''/'' \<notin> set u" "CHR ''/'' \<notin> set e" "CHR ''.'' \<notin> set e"
    and "\<exists>x \<in> set u. x \<noteq> CHR ''.''"
  shows "splitext (u @ CHR ''.'' # e) = (u, CHR ''.'' # e)"
  using splitext_ext[OF dir_prefix_Nil assms] by simp

lemma splitext_noext0:
  assumes "CHR ''/'' \<notin> set r" "CHR ''.'' \<notin> set r"
  shows "splitext (replicate k CHR ''.'' @ r) = (replicate k CHR ''.'' @ r, [])"
  using splitext_noext[OF dir_prefix_Nil assms] by simp

lemma splitext_dir:
  assumes "dir_prefix D" "CHR ''/'' \<notin> set n"
  shows "splitext (D @ n) = (D @ fst (splitext n), snd (splitext n))"
proof (cases n rule: component_cases)
  case (ext u e)
  from ext(1) assms(2) have s: "CHR ''/'' \<notin> set u" "CHR ''/'' \<notin> set e" by simp_all
  show ?thesis
    unfolding ext(1) splitext_ext[OF assms(1) s ext(2,3)] splitext_ext0[OF s ext(2,3)] by simp
next
  case (noext k r)
  from noext(1) assms(2) have s: "CHR ''/'' \<notin> set r" by simp
  show ?thesis
    unfolding noext(1) splitext_noext[OF assms(1) s noext(2)] splitext_noext0[OF s noext(2)] by simp
qed

lemma splitext_replace_stem:
  assumes "CHR ''/'' \<notin> set n" "splitext n = (a @ CHR ''_'' # b, ext)"
    and "CHR ''.'' \<notin> set s" "CHR ''/'' \<notin> set s"
  shows "splitext (a @ CHR ''_'' # s @ ext) = (a @ CHR ''_'' # s, ext)
       \<and> CHR ''/'' \<notin> set (a @ CHR ''_'' # s @ ext)"
proof (cases n rule: component_cases)
  case (ext u e)
  from ext(1) assms(1) have s: "CHR ''/'' \<notin> set u" "CHR ''/'' \<notin> set e" by simp_all
  have "splitext n = (u, CHR ''.'' # e)"
    unfolding ext(1) by (rule splitext_ext0[OF s ext(2,3)])
  with assms(2) have u: "u = a @ CHR ''_'' # b" and e: "ext = CHR ''.'' # e" by simp_all
  from s(1) u have sa: "CHR ''/'' \<notin> set a" by simp
  have "splitext ((a @ CHR ''_'' # s) @ CHR ''.'' # e) = (a @ CHR ''_'' # s, CHR ''.'' # e)"
  proof (rule splitext_ext0)
    show "CHR ''/'' \<notin> set (a @ CHR ''_'' # s)" using sa assms(4) by simp
    show "CHR ''/'' \<notin> set e" by (rule s(2))
    show "CHR ''.'' \<notin> set e" by (rule ext(2))
    have "CHR ''_'' \<in> set (a @ CHR ''_'' # s)" by simp
    then show "\<exists>x\<in>set (a @ CHR ''_'' # s). x \<noteq> CHR ''.''" by (rule bexI[rotated]) simp
  qed
  then show ?thesis using e s(2) sa assms(4) by simp
next
  case (noext k r)
  from noext(1) assms(1) have s: "CHR ''/'' \<notin> set r" by simp
  have "splitext n = (n, [])"
    unfolding noext(1) by (rule splitext_noext0[OF s noext(2)])
  with assms(2) have n: "n = a @ CHR ''_'' # b" and e: "ext = []" by simp_all
  from noext(1) n have "replicate k CHR ''.'' @ r = a @ CHR ''_'' # b" by simp
  from dots_prefix[OF this] obtain a' where a: "a = replicate k CHR ''.'' @ a'" "r = a' @ CHR ''_'' # b"
    by blast
  from a(2) noext(2) s have a': "CHR ''.'' \<notin> set a'" "CHR ''/'' \<notin> set a'" by simp_all
  have "splitext (replicate k CHR ''.'' @ (a' @ CHR ''_'' # s)) = (replicate k CHR ''.'' @ (a' @ CHR ''_'' # s), [])"
  proof (rule splitext_noext0)
    show "CHR ''/'' \<notin> set (a' @ CHR ''_'' # s)" using a'(2) assms(4) by simp
    show "CHR ''.'' \<notin> set (a' @ CHR ''_'' # s)" using a'(1) assms(3) by simp
  qed
  then show ?thesis using a(1) e a'(2) assms(4) by simp
qed

lemma path_decompose:
  obtains D n where "f = D @ n" "dir_prefix D" "CHR ''/'' \<notin> set n"
proof (cases "CHR ''/'' \<in> set f")
  case False
  have "f = [] @ f" by simp
  then show ?thesis using dir_prefix_Nil False by (rule that)
next
  case True
  then obtain a b where ab: "f = a @ CHR ''/'' # b" "CHR ''/'' \<notin> set b"
    by (meson split_list_last)
  have "f = (a @ [CHR ''/'']) @ b" using ab(1) by simp
  moreover have "dir_prefix (a @ [CHR ''/''])" by (simp add: dir_prefix_def)
  ultimately show ?thesis using ab(2) by (rule that)
qed

lemma path_split_tail:
  assumes "dir_prefix D" "CHR ''/'' \<notin> set n"
  shows "snd (path_split (D @ n)) = n"
  using rfind_sep_dir[OF assms] by (simp add: path_split_def Let_def)

lemma endswith_sep_last: "endswith_sep a \<longleftrightarrow> a \<noteq> [] \<and> last a = CHR ''/''"
  by (cases a rule: rev_cases) (simp_all add: endswith_sep_def)

lemma dir_prefix_join_dir: "dir_prefix (join_dir d)"
  by (simp add: join_dir_def dir_prefix_def endswith_sep_last)

lemma path_join_file:
  assumes "CHR ''/'' \<notin> set n"
  shows "path_join d n = join_dir d @ n"
proof -
  have "\<not> startswith_sep n" using assms by (cases n) (auto simp: startswith_sep_def)
  then show ?thesis by (simp add: path_join_def join_dir_def)
qed

lemma replace_suffix:
  assumes "dir_prefix D" "CHR ''/'' \<notin> set n"
    and "splitext n = (a @ CHR ''_'' # b, ext)" "CHR ''_'' \<notin> set b"
  shows "(case splitext (D @ n) of (base, ext') \<Rightarrow>
            slice_to base (rfind base CHR ''_'') @ ''_'' @ suffix @ ext')
         = D @ a @ CHR ''_'' # suffix @ ext"
proof -
  have sp: "splitext (D @ n) = ((D @ a) @ CHR ''_'' # b, ext)"
    using splitext_dir[OF assms(1,2)] assms(3) by simp
  have rf: "rfind ((D @ a) @ CHR ''_'' # b) CHR ''_'' = int (length (D @ a))"
    using assms(4) by (rule rfind_last)
  have "slice_to ((D @ a) @ CHR ''_'' # b) (int (length (D @ a))) = D @ a"
    by (rule slice_to_len)
  with sp rf show ?thesis by simp
qed

lemma mk_filename_None:
  assumes "dir_prefix D" "CHR ''/'' \<notin> set n"
    and "splitext n = (a @ CHR ''_'' # b, ext)" "CHR ''_'' \<notin> set b"
  shows "mk_filename None (D @ n) suffix = D @ a @ CHR ''_'' # suffix @ ext"
  using replace_suffix[OF assms, of suffix] by (simp add: mk_filename_def)

lemma mk_filename_Some:
  assumes "snd (path_split f) = n" "CHR ''/'' \<notin> set n"
    and "splitext n = (a @ CHR ''_'' # b, ext)" "CHR ''_'' \<notin> set b"
  shows "mk_filename (Some d) f suffix = join_dir d @ a @ CHR ''_'' # suffix @ ext"
proof -
  have "(case splitext (join_dir d @ n) of (base, ext') \<Rightarrow>
            slice_to base (rfind base CHR ''_'') @ ''_'' @ suffix @ ext')
         = join_dir d @ a @ CHR ''_'' # suffix @ ext"
    using dir_prefix_join_dir assms(2,3,4) by (rule replace_suffix)
  then show ?thesis
    using assms(1) path_join_file[OF assms(2), of d] by (simp add: mk_filename_def)
qed


section \<open>Facts about traces and the loops of the run\<close>

lemma saves_simps [simp]:
  "saves [] = []" "saves (ev # tr) = saved ev @ saves tr" "saves (tr @ tr') = saves tr @ saves tr'"
  by (simp_all add: saves_def)

lemma closes_simps [simp]:
  "closes [] = []" "closes (ev # tr) = closed ev @ closes tr" "closes (tr @ tr') = closes tr @ closes tr'"
  by (simp_all add: closes_def)

lemma klip_calls_simps [simp]:
  "klip_calls [] = []" "klip_calls (ev # tr) = klip_arg ev @ klip_calls tr"
  "klip_calls (tr @ tr') = klip_calls tr @ klip_calls tr'"
  by (simp_all add: klip_calls_def)

lemma outlier_calls_simps [simp]:
  "outlier_calls [] = []" "outlier_calls (ev # tr) = outlier_arg ev @ outlier_calls tr"
  "outlier_calls (tr @ tr') = outlier_calls tr @ outlier_calls tr'"
  by (simp_all add: outlier_calls_def)

lemma resample_calls_simps [simp]:
  "resample_calls [] = []" "resample_calls (ev # tr) = resample_arg ev @ resample_calls tr"
  "resample_calls (tr @ tr') = resample_calls tr @ resample_calls tr'"
  by (simp_all add: resample_calls_def)

lemma partition_members_acc:
  "partition_members ms psf_files targ_files =
     (psf_files @ map expname (filter (\<lambda>m. upper (exptype m) = ''PSF'') ms),
      targ_files @ map expname (filter (\<lambda>m. upper (exptype m) = ''SCIENCE'') ms))"
  by (induction ms arbitrary: psf_files targ_files) (simp_all add: Let_def)

lemma bind_run_Inr [simp]: "bind_run (t, Inr a) f = after t (f a)"
  by (simp add: bind_run_def after_def split: prod.splits)

lemma bind_run_Inl [simp]: "bind_run (t, Inl e) f = (t, Inl e)"
  by (simp add: bind_run_def)

lemma after_pair [simp]: "after t (t', r) = (t @ t', r)"
  by (simp add: after_def)

lemma load_psfs_ok:
  assumes "\<forall>f. \<not> isl (open_cube env f)"
  shows "load_psfs env fs i psf_models =
           (concat (map psf_events (enumerate i fs)),
            Inr (psf_models @ map (\<lambda>f. projr (open_cube env f)) fs))"
proof (induction fs arbitrary: i psf_models)
  case Nil
  show ?case by simp
next
  case (Cons f fs)
  from assms have "\<not> isl (open_cube env f)" by blast
  then obtain c where c: "open_cube env f = Inr c" by (cases "open_cube env f") simp_all
  show ?case by (simp add: c Cons.IH psf_events_def)
qed

lemma make_image_ok:
  assumes "i < length (data psf_sub)" "length (data psf_sub) \<le> length (err psf_sub)"
    "length (data psf_sub) \<le> length (dq psf_sub)"
  shows "make_image env psf_sub i = Inr (plane_image env psf_sub i)"
  using assms by (simp add: make_image_def getitem_def update_def plane_image_def)

lemma split_planes_from:
  assumes "length (data psf_sub) \<le> length (err psf_sub)"
    "length (data psf_sub) \<le> length (dq psf_sub)"
  shows "split_planes env psf_sub i target_models =
           Inr (target_models @ map (plane_image env psf_sub) [i..<length (data psf_sub)])"
  using assms
proof (induction env psf_sub i target_models rule: split_planes.induct)
  case (1 env psf_sub i target_models)
  show ?case
  proof (cases "i < length (data psf_sub)")
    case False
    then show ?thesis by (subst split_planes.simps) simp
  next
    case True
    have mk: "make_image env psf_sub i = Inr (plane_image env psf_sub i)"
      using True "1.prems" by (rule make_image_ok)
    have "split_planes env psf_sub (i + 1) (target_models @ [plane_image env psf_sub i]) =
          Inr ((target_models @ [plane_image env psf_sub i])
               @ map (plane_image env psf_sub) [i + 1..<length (data psf_sub)])"
      using True mk "1.prems" by (intro "1.IH") simp_all
    then show ?thesis
      using True mk by (subst split_planes.simps) (simp add: upt_conv_Cons)
  qed
qed

lemma not_isl_Inr: "\<not> isl r \<Longrightarrow> r = Inr (projr r)"
  by (cases r) simp_all

lemma branch_ok:
  assumes "collaborators_return env"
  shows "branch env psf_stack i tf =
           (branch_events env psf_stack (i, tf), Inr (branch_result env psf_stack tf))"
proof -
  let ?a = "aligned_of env psf_stack tf"
  let ?s = "sub_of env psf_stack tf"
  let ?ims = "planes_of env psf_stack tf"
  from assms have al: "align_refs env tf psf_stack = Inr ?a"
    unfolding collaborators_return_def aligned_of_def by (intro not_isl_Inr) blast
  from assms have kl: "klip env tf ?a = Inr ?s"
    unfolding collaborators_return_def sub_of_def by (intro not_isl_Inr) blast
  from assms have sv: "\<And>p. save env p = Inr ()"
    unfolding collaborators_return_def by (metis not_isl_Inr old.unit.exhaust)
  from assms have wf: "length (data ?s) \<le> length (err ?s)" "length (data ?s) \<le> length (dq ?s)"
    unfolding collaborators_return_def sub_of_def by blast+
  have "split_planes env ?s 0 [] = Inr ([] @ map (plane_image env ?s) [0..<length (data ?s)])"
    using wf by (rule split_planes_from)
  then have sp: "split_planes env ?s 0 [] = Inr ?ims"
    by (simp add: planes_of_def)
  from assms have od: "outlier_detection env ?ims = Inr (branch_result env psf_stack tf)"
    unfolding collaborators_return_def branch_result_def by (intro not_isl_Inr) blast
  show ?thesis
    by (simp add: branch_def call_def emit_def silent_def Let_def al kl sv sp od branch_events_def)
qed

lemma targets_loop_ok:
  assumes "collaborators_return env"
  shows "targets_loop env psf_stack tfs i resample_input =
           (concat (map (branch_events env psf_stack) (enumerate i tfs)),
            Inr (resample_input @ concat (map (branch_result env psf_stack) tfs)))"
proof (induction tfs arbitrary: i resample_input)
  case Nil
  show ?case by simp
next
  case (Cons tf tfs)
  show ?case by (simp add: branch_ok[OF assms] Cons.IH)
qed

lemma process_ok:
  assumes env: "collaborators_return env"
    and prd: "products asn = prd # rest"
    and part: "partition_members (members prd) [] [] = (psf_files, targ_files)"
    and ne: "psf_files \<noteq> []" "targ_files \<noteq> []"
  shows "process env asn = (run_events env prd psf_files targ_files, Inr ())"
proof -
  from env have op: "\<forall>f. \<not> isl (open_cube env f)"
    unfolding collaborators_return_def by blast
  have lp: "load_psfs env psf_files 0 [] =
      (concat (map psf_events (enumerate 0 psf_files)),
       Inr (map (\<lambda>f. projr (open_cube env f)) psf_files))"
    using load_psfs_ok[OF op, of psf_files 0 "[]"] by simp
  from env have st: "stack_refs env (map (\<lambda>f. projr (open_cube env f)) psf_files)
      = Inr (stack_of env psf_files)"
    unfolding collaborators_return_def stack_of_def by (intro not_isl_Inr) blast
  from env have fm: "\<And>p. format_name env (name prd) p = Inr (projr (format_name env (name prd) p))"
    unfolding collaborators_return_def by (intro not_isl_Inr) blast
  from env have sv: "\<And>p. save env p = Inr ()"
    unfolding collaborators_return_def by (metis not_isl_Inr old.unit.exhaust)
  have tl: "targets_loop env (stack_of env psf_files) targ_files 0 [] =
      (loop_events env psf_files targ_files, Inr (resample_input_of env psf_files targ_files))"
    using targets_loop_ok[OF env, of "stack_of env psf_files" targ_files 0 "[]"]
    by (simp add: loop_events_def resample_input_of_def)
  from env have rs: "resample env (resample_input_of env psf_files targ_files)
      = Inr (projr (resample env (resample_input_of env psf_files targ_files)))"
    unfolding collaborators_return_def by (intro not_isl_Inr) blast
  have f1: "format_name env (name prd) ''psfstack'' = Inr (projr (format_name env (name prd) ''psfstack''))"
    by (rule fm)
  have f2: "format_name env (name prd) ''coroncmb'' = Inr (projr (format_name env (name prd) ''coroncmb''))"
    by (rule fm)
  show ?thesis
    unfolding process_def prd
    apply (simp only: list.case part prod.case)
    apply (simp only: lp st tl call_def emit_def silent_def Let_def bind_run_Inr after_pair sv)
    apply (subst f1)
    apply (simp only: bind_run_Inr after_pair sv)
    apply (subst rs)
    apply (simp only: bind_run_Inr after_pair sv)
    apply (subst f2)
    apply (simp only: bind_run_Inr after_pair sv)
    using ne by (simp add: run_events_def product_file_def)
qed



lemma mk_filename_rooted:
  assumes stem: "CHR ''_'' \<in> set (fst (splitext (snd (path_split f))))"
    and s: "CHR ''.'' \<notin> set s" "CHR ''/'' \<notin> set s"
  shows "mk_filename (Some d) f s = path_join d (mk_filename None (snd (path_split f)) s)
       \<and> CHR ''/'' \<notin> set (mk_filename None (snd (path_split f)) s)"
proof -
  obtain D n where f: "f = D @ n" and D: "dir_prefix D" and n: "CHR ''/'' \<notin> set n"
    by (rule path_decompose)
  have tail: "snd (path_split f) = n"
    unfolding f using D n by (rule path_split_tail)
  obtain st ext where sp: "splitext n = (st, ext)" by (cases "splitext n")
  with stem tail have "CHR ''_'' \<in> set st" by simp
  then obtain a b where st: "st = a @ CHR ''_'' # b" and b: "CHR ''_'' \<notin> set b"
    by (meson split_list_last)
  from sp st have sp': "splitext n = (a @ CHR ''_'' # b, ext)" by simp
  let ?n2 = "a @ CHR ''_'' # s @ ext"
  from splitext_replace_stem[OF n sp' s] have n2: "CHR ''/'' \<notin> set ?n2" by simp
  have r1: "mk_filename (Some d) f s = join_dir d @ ?n2"
    using tail n sp' b by (rule mk_filename_Some)
  have "mk_filename None ([] @ n) s = [] @ ?n2"
    using dir_prefix_Nil n sp' b by (rule mk_filename_None)
  then have r2: "mk_filename None n s = ?n2" by simp
  have "path_join d ?n2 = join_dir d @ ?n2" using n2 by (rule path_join_file)
  with r1 r2 n2 tail show ?thesis by simp
qed

lemma concat_map_enumerate_single:
  "concat (map (\<lambda>(j, x). [g j]) (enumerate i xs)) = map g [i..<i + length xs]"
proof (induction xs arbitrary: i)
  case Nil
  show ?case by simp
next
  case (Cons x xs)
  have "[i..<i + length (x # xs)] = i # [Suc i..<Suc i + length xs]"
    by (subst upt_rec) simp
  then show ?case using Cons.IH[of "Suc i"] by simp
qed

lemma concat_map_enumerate_pair:
  "concat (map (\<lambda>(j, x). [g j, h j]) (enumerate i xs))
     = concat (map (\<lambda>j. [g j, h j]) [i..<i + length xs])"
proof (induction xs arbitrary: i)
  case Nil
  show ?case by simp
next
  case (Cons x xs)
  have "[i..<i + length (x # xs)] = i # [Suc i..<Suc i + length xs]"
    by (subst upt_rec) simp
  then show ?case using Cons.IH[of "Suc i"] by simp
qed

lemma saves_concat: "saves (concat (map f xs)) = concat (map (\<lambda>x. saves (f x)) xs)"
  by (induction xs) simp_all

lemma closes_concat: "closes (concat (map f xs)) = concat (map (\<lambda>x. closes (f x)) xs)"
  by (induction xs) simp_all

lemma klip_calls_concat: "klip_calls (concat (map f xs)) = concat (map (\<lambda>x. klip_calls (f x)) xs)"
  by (induction xs) simp_all

lemma outlier_calls_concat:
  "outlier_calls (concat (map f xs)) = concat (map (\<lambda>x. outlier_calls (f x)) xs)"
  by (induction xs) simp_all

lemma resample_calls_concat:
  "resample_calls (concat (map f xs)) = concat (map (\<lambda>x. resample_calls (f x)) xs)"
  by (induction xs) simp_all

lemma saves_psf_events [simp]: "saves (psf_events jf) = []"
  by (cases jf) (simp add: psf_events_def)

lemma closes_psf_events [simp]: "closes (psf_events (j, f)) = [Psf_input j]"
  by (simp add: psf_events_def)

lemma saves_branch_events [simp]:
  "saves (branch_events env st (j, tf)) =
     [(Psf_aligned j, mk_filename (output_dir env) tf ''psfalign''),
      (Psf_sub j, mk_filename (output_dir env) tf ''psfsub'')]"
  by (simp add: branch_events_def)

lemma closes_branch_events [simp]: "closes (branch_events env st (j, tf)) = [Psf_aligned j]"
  by (simp add: branch_events_def)

lemma klip_calls_branch_events [simp]:
  "klip_calls (branch_events env st (j, tf)) = [(tf, aligned_of env st tf)]"
  by (simp add: branch_events_def)

lemma outlier_calls_branch_events [simp]:
  "outlier_calls (branch_events env st (j, tf)) = [planes_of env st tf]"
  by (simp add: branch_events_def)

lemma resample_calls_branch_events [simp]: "resample_calls (branch_events env st jt) = []"
  by (cases jt) (simp add: branch_events_def)

lemma saves_loop_events:
  "saves (loop_events env psf_files targ_files) =
     concat (map (\<lambda>(j, tf). [(Psf_aligned j, mk_filename (output_dir env) tf ''psfalign''),
                              (Psf_sub j, mk_filename (output_dir env) tf ''psfsub'')])
                 (enumerate 0 targ_files))"
  unfolding loop_events_def saves_concat
  by (rule arg_cong[where f = concat], rule map_cong) auto

lemma closes_loop_events:
  "closes (loop_events env psf_files targ_files) = map Psf_aligned [0..<length targ_files]"
proof -
  have "closes (loop_events env psf_files targ_files)
      = concat (map (\<lambda>(j, tf). [Psf_aligned j]) (enumerate 0 targ_files))"
    unfolding loop_events_def closes_concat
    by (rule arg_cong[where f = concat], rule map_cong) auto
  then show ?thesis using concat_map_enumerate_single[of Psf_aligned 0 targ_files] by simp
qed

lemma closes_psf_loop:
  "closes (concat (map psf_events (enumerate 0 psf_files))) = map Psf_input [0..<length psf_files]"
proof -
  have "closes (concat (map psf_events (enumerate 0 psf_files)))
      = concat (map (\<lambda>(j, f). [Psf_input j]) (enumerate 0 psf_files))"
    unfolding closes_concat
    by (rule arg_cong[where f = concat], rule map_cong) auto
  then show ?thesis using concat_map_enumerate_single[of Psf_input 0 psf_files] by simp
qed

lemma saves_psf_loop: "saves (concat (map psf_events xs)) = []"
  by (induction xs) simp_all

lemma klip_calls_loop_events:
  "klip_calls (loop_events env psf_files targ_files)
     = map (\<lambda>tf. (tf, aligned_of env (stack_of env psf_files) tf)) targ_files"
proof -
  have "\<And>i. klip_calls (concat (map (branch_events env st) (enumerate i tfs)))
      = map (\<lambda>tf. (tf, aligned_of env st tf)) tfs" for st tfs
    by (induction tfs) simp_all
  then show ?thesis by (simp add: loop_events_def)
qed

lemma outlier_calls_loop_events:
  "outlier_calls (loop_events env psf_files targ_files)
     = map (planes_of env (stack_of env psf_files)) targ_files"
proof -
  have "\<And>i. outlier_calls (concat (map (branch_events env st) (enumerate i tfs)))
      = map (planes_of env st) tfs" for st tfs
    by (induction tfs) simp_all
  then show ?thesis by (simp add: loop_events_def)
qed

lemma resample_calls_loop_events: "resample_calls (loop_events env psf_files targ_files) = []"
proof -
  have "resample_calls (concat (map (branch_events env st) xs)) = []" for st xs
    by (induction xs) simp_all
  then show ?thesis by (simp add: loop_events_def)
qed

lemma upper_PSF: "upper ''PSF'' = ''PSF''"
  by (simp add: upper_def upper_char_def)

lemma upper_SCIENCE: "upper ''SCIENCE'' = ''SCIENCE''"
  by (simp add: upper_def upper_char_def)

lemma sample_env_returns: "collaborators_return sample_env"
  by (simp add: collaborators_return_def sample_env_def sample_cube_def)

lemma sample_products: "products sample_asn = sample_product # []"
  by (simp add: sample_asn_def)

lemma sample_partition:
  "partition_members (members sample_product) [] []
     = ([''ref_calints.fits''], [''a/t1_calints.fits'', ''t2_calints.fits''])"
  by (simp add: sample_product_def upper_def upper_char_def)

lemma saves_run_events:
  "saves (run_events env prd psf_files targ_files) =
     (Psf_stack, product_file env prd ''psfstack'')
     # concat (map (\<lambda>(j, tf). [(Psf_aligned j, mk_filename (output_dir env) tf ''psfalign''),
                                 (Psf_sub j, mk_filename (output_dir env) tf ''psfsub'')])
                   (enumerate 0 targ_files))
     @ [(Result, product_file env prd ''coroncmb'')]"
  by (simp add: run_events_def saves_psf_loop saves_loop_events)

lemma saved_objects_run_events:
  "map fst (saves (run_events env prd psf_files targ_files)) =
     Psf_stack # concat (map (\<lambda>j. [Psf_aligned j, Psf_sub j]) [0..<length targ_files]) @ [Result]"
proof -
  have "map fst (concat (map (\<lambda>(j, tf). [(Psf_aligned j, mk_filename (output_dir env) tf ''psfalign''),
                                 (Psf_sub j, mk_filename (output_dir env) tf ''psfsub'')])
                   (enumerate 0 targ_files)))
      = concat (map (\<lambda>(j, tf). [Psf_aligned j, Psf_sub j]) (enumerate 0 targ_files))"
    unfolding map_concat map_map
    by (rule arg_cong[where f = concat], rule map_cong) auto
  then show ?thesis
    using concat_map_enumerate_pair[of Psf_aligned Psf_sub 0 targ_files]
    by (simp add: saves_run_events)
qed

lemma filter_pairs_Result:
  "filter (\<lambda>x. x = Result) (concat (map (\<lambda>j. [Psf_aligned j, Psf_sub j]) js)) = []"
  by (induction js) simp_all

lemma filter_pairs_not_Result:
  "filter (\<lambda>x. x \<noteq> Result) (concat (map (\<lambda>j. [Psf_aligned j, Psf_sub j]) js))
     = concat (map (\<lambda>j. [Psf_aligned j, Psf_sub j]) js)"
  by (induction js) simp_all

lemma length_pairs: "length (concat (map (\<lambda>j. [g j, h j]) js)) = 2 * length js"
  by (induction js) simp_all

lemma klip_calls_psf_loop: "klip_calls (concat (map psf_events xs)) = []"
  by (induction xs) (auto simp: psf_events_def)

lemma outlier_calls_psf_loop: "outlier_calls (concat (map psf_events xs)) = []"
  by (induction xs) (auto simp: psf_events_def)

lemma resample_calls_psf_loop: "resample_calls (concat (map psf_events xs)) = []"
  by (induction xs) (auto simp: psf_events_def)

lemma run_events_split:
  "run_events env prd psf_files targ_files =
     before_resample env prd psf_files targ_files
     @ [Resample (resample_input_of env psf_files targ_files),
        Save Result (product_file env prd ''coroncmb''),
        Close Result]"
  by (simp add: run_events_def before_resample_def)

lemma outlier_calls_before_resample:
  "outlier_calls (before_resample env prd psf_files targ_files)
     = map (planes_of env (stack_of env psf_files)) targ_files"
  by (simp add: before_resample_def outlier_calls_psf_loop outlier_calls_loop_events)

lemma klip_calls_before_resample:
  "klip_calls (before_resample env prd psf_files targ_files)
     = map (\<lambda>tf. (tf, aligned_of env (stack_of env psf_files) tf)) targ_files"
  by (simp add: before_resample_def klip_calls_psf_loop klip_calls_loop_events)

lemma resample_calls_before_resample:
  "resample_calls (before_resample env prd psf_files targ_files) = []"
  by (simp add: before_resample_def resample_calls_psf_loop resample_calls_loop_events)

lemma closes_run_events:
  "closes (run_events env prd psf_files targ_files)
     = map Psf_input [0..<length psf_files] @ [Psf_models]
       @ map Psf_aligned [0..<length targ_files] @ [Result]"
  by (simp add: run_events_def closes_psf_loop closes_loop_events)

lemma distinct_released:
  "distinct (map Psf_input [0..<n] @ [Psf_models] @ map Psf_aligned [0..<k] @ [Result])"
  by (auto simp: distinct_map inj_on_def)

lemma concat_map_nth_split:
  assumes "j < length xs"
  shows "concat (map f xs)
           = concat (map f (take j xs)) @ f (xs ! j) @ concat (map f (drop (Suc j) xs))"
proof -
  have "xs = take j xs @ xs ! j # drop (Suc j) xs"
    using assms by (rule id_take_nth_drop)
  then have "concat (map f xs) = concat (map f (take j xs @ xs ! j # drop (Suc j) xs))"
    by simp
  then show ?thesis by simp
qed



lemma enumerate_snd_in_set: "(j, x) \<in> set (enumerate i xs) \<Longrightarrow> x \<in> set xs"
  by (induction xs arbitrary: i) auto

lemma no_dot_psfalign: "CHR ''.'' \<notin> set ''psfalign''" by simp

lemma no_sep_psfalign: "CHR ''/'' \<notin> set ''psfalign''" by simp

lemma no_dot_psfsub: "CHR ''.'' \<notin> set ''psfsub''" by simp

lemma no_sep_psfsub: "CHR ''/'' \<notin> set ''psfsub''" by simp

lemma sample_stems:
  "list_all (\<lambda>tf. CHR ''_'' \<in> set (fst (splitext (snd (path_split tf)))))
     [''a/t1_calints.fits'', ''t2_calints.fits'']"
  by code_simp

lemma upper_char_P: "upper_char a = CHR ''P'' \<longleftrightarrow> same_letter a CHR ''P''"
  by (auto simp: upper_char_def same_letter_def)

lemma upper_char_S: "upper_char a = CHR ''S'' \<longleftrightarrow> same_letter a CHR ''S''"
  by (auto simp: upper_char_def same_letter_def)

lemma upper_char_F: "upper_char a = CHR ''F'' \<longleftrightarrow> same_letter a CHR ''F''"
  by (auto simp: upper_char_def same_letter_def)

lemma upper_char_C: "upper_char a = CHR ''C'' \<longleftrightarrow> same_letter a CHR ''C''"
  by (auto simp: upper_char_def same_letter_def)

lemma upper_char_I: "upper_char a = CHR ''I'' \<longleftrightarrow> same_letter a CHR ''I''"
  by (auto simp: upper_char_def same_letter_def)

lemma upper_char_E: "upper_char a = CHR ''E'' \<longleftrightarrow> same_letter a CHR ''E''"
  by (auto simp: upper_char_def same_letter_def)

lemma upper_char_N: "upper_char a = CHR ''N'' \<longleftrightarrow> same_letter a CHR ''N''"
  by (auto simp: upper_char_def same_letter_def)

lemma upper_eq_PSF: "upper s = ''PSF'' \<longleftrightarrow> same_ignoring_case s ''PSF''"
  by (auto simp: upper_def same_ignoring_case_def list_all2_Cons2 map_eq_Cons_conv
      upper_char_P upper_char_S upper_char_F)

lemma upper_eq_SCIENCE: "upper s = ''SCIENCE'' \<longleftrightarrow> same_ignoring_case s ''SCIENCE''"
  by (auto simp: upper_def same_ignoring_case_def list_all2_Cons2 map_eq_Cons_conv
      upper_char_S upper_char_C upper_char_I upper_char_E upper_char_N)

lemma run_events_around_klip:
  assumes "j < length targ_files"
  shows "\<exists>pre post. run_events env prd psf_files targ_files
           = pre @ [Align_refs (targ_files ! j) (stack_of env psf_files),
                    Save (Psf_aligned j) (mk_filename (output_dir env) (targ_files ! j) ''psfalign''),
                    Klip (targ_files ! j)
                      (projr (align_refs env (targ_files ! j) (stack_of env psf_files))),
                    Close (Psf_aligned j)] @ post"
proof -
  let ?xs = "enumerate 0 targ_files"
  let ?st = "stack_of env psf_files"
  let ?f = "branch_events env ?st"
  let ?tf = "targ_files ! j"
  let ?mid = "[Align_refs ?tf ?st,
               Save (Psf_aligned j) (mk_filename (output_dir env) ?tf ''psfalign''),
               Klip ?tf (projr (align_refs env ?tf ?st)),
               Close (Psf_aligned j)]"
  let ?rest = "[Save (Psf_sub j) (mk_filename (output_dir env) ?tf ''psfsub''),
                Outlier_detection (planes_of env ?st ?tf)]"
  let ?a = "concat (map psf_events (enumerate 0 psf_files))
     @ [Stack_refs (map (\<lambda>f. projr (open_cube env f)) psf_files),
        Close Psf_models,
        Save Psf_stack (product_file env prd ''psfstack'')]"
  let ?z = "[Resample (resample_input_of env psf_files targ_files),
        Save Result (product_file env prd ''coroncmb''),
        Close Result]"
  have j: "j < length ?xs" using assms by simp
  have nth: "?xs ! j = (j, ?tf)" using assms by (simp add: nth_enumerate_eq)
  have l: "loop_events env psf_files targ_files
      = concat (map ?f (take j ?xs)) @ ?f (?xs ! j) @ concat (map ?f (drop (Suc j) ?xs))"
    unfolding loop_events_def using j by (rule concat_map_nth_split)
  have b: "?f (?xs ! j) = ?mid @ ?rest"
    unfolding nth by (simp add: branch_events_def aligned_of_def)
  have "run_events env prd psf_files targ_files
      = (?a @ concat (map ?f (take j ?xs))) @ ?mid
        @ (?rest @ concat (map ?f (drop (Suc j) ?xs)) @ ?z)"
    unfolding run_events_def l b by simp
  then show ?thesis by blast
qed










text \<open>The comparison of tags at work: case is ignored, order and spelling are not.\<close>

lemma same_ignoring_case_examples:
  "same_ignoring_case ''pSf'' ''PSF''
   \<and> same_ignoring_case ''Science'' ''SCIENCE''
   \<and> \<not> same_ignoring_case ''PFS'' ''PSF''
   \<and> \<not> same_ignoring_case ''PSF1'' ''PSF''"
  by code_simp

text \<open>
  The error branches are live: when \<^verbatim>\<open>klip\<close> raises, the run ends there with that error,
  the aligned PSF saved and not released; and a cube whose \<^verbatim>\<open>err\<close> array is shorter than
  its \<^verbatim>\<open>data\<close> array makes the split loop raise \<^verbatim>\<open>IndexError\<close>.
\<close>

lemma run_stops_when_klip_raises:
  "snd (process failing_klip_env sample_asn) = Inl (Raised ''klip failed'')
   \<and> map fst (saves (fst (process failing_klip_env sample_asn))) = [Psf_stack, Psf_aligned 0]
   \<and> closes (fst (process failing_klip_env sample_asn)) = [Psf_input 0, Psf_models]
   \<and> klip_calls (fst (process failing_klip_env sample_asn))
       = [(''a/t1_calints.fits'', ''aligned:a/t1_calints.fits'')]"
  by code_simp

lemma split_planes_short_err:
  "(case split_planes sample_env short_err_cube 0 [] of
      Inl e \<Rightarrow> e = IndexError
    | Inr images \<Rightarrow> False)"
  by code_simp


section \<open>Claims about the output naming\<close>

text \<open>
  C7, as stated: applying \<^verbatim>\<open>mk_filename\<close> a second time, with the same suffix and the
  same output directory, to its own output gives the same path, for every input path and
  every suffix.  This fails.  With output directory \<^verbatim>\<open>/data/run_1\<close>, input
  \<^verbatim>\<open>target.fits\<close> and suffix \<^verbatim>\<open>psfsub\<close> the first application cuts the joined path at
  the underscore of the directory and returns \<^verbatim>\<open>/data/run_psfsub.fits\<close>; the second
  application re-roots that name and returns \<^verbatim>\<open>/data/run_1/run_psfsub.fits\<close>.
\<close>

theorem mk_filename_not_idempotent:
  "mk_filename (Some ''/data/run_1'') ''target.fits'' ''psfsub'' = ''/data/run_psfsub.fits''
   \<and> mk_filename (Some ''/data/run_1'')
         (mk_filename (Some ''/data/run_1'') ''target.fits'' ''psfsub'') ''psfsub''
       = ''/data/run_1/run_psfsub.fits''
   \<and> mk_filename (Some ''/data/run_1'')
         (mk_filename (Some ''/data/run_1'') ''target.fits'' ''psfsub'') ''psfsub''
       \<noteq> mk_filename (Some ''/data/run_1'') ''target.fits'' ''psfsub''"
  by code_simp

text \<open>
  The suffix matters as well: a suffix that itself contains an underscore is cut at
  that underscore by the second application.
\<close>

lemma mk_filename_suffix_with_underscore:
  "mk_filename None ''a_b.fits'' ''x_y'' = ''a_x_y.fits''
   \<and> mk_filename None (mk_filename None ''a_b.fits'' ''x_y'') ''x_y'' = ''a_x_x_y.fits''"
  by code_simp

text \<open>
  C7, amended: when the suffix contains no underscore, dot or separator, and the file
  name of the input path (its last component, extension removed) contains an
  underscore, applying \<^verbatim>\<open>mk_filename\<close> twice with the same suffix and the same output
  directory gives the same path as applying it once.
\<close>

theorem mk_filename_idempotent:
  assumes s: "CHR ''_'' \<notin> set suffix" "CHR ''.'' \<notin> set suffix" "CHR ''/'' \<notin> set suffix"
    and stem: "CHR ''_'' \<in> set (fst (splitext (snd (path_split filename))))"
  shows "mk_filename out_dir (mk_filename out_dir filename suffix) suffix
         = mk_filename out_dir filename suffix"
proof -
  obtain D n where f: "filename = D @ n" and D: "dir_prefix D" and n: "CHR ''/'' \<notin> set n"
    by (rule path_decompose)
  have tail: "snd (path_split filename) = n"
    unfolding f using D n by (rule path_split_tail)
  obtain st ext where sp: "splitext n = (st, ext)" by (cases "splitext n")
  with stem tail have "CHR ''_'' \<in> set st" by simp
  then obtain a b where st: "st = a @ CHR ''_'' # b" and b: "CHR ''_'' \<notin> set b"
    by (meson split_list_last)
  from sp st have sp': "splitext n = (a @ CHR ''_'' # b, ext)" by simp
  let ?n2 = "a @ CHR ''_'' # suffix @ ext"
  from splitext_replace_stem[OF n sp' s(2,3)]
  have sp2: "splitext ?n2 = (a @ CHR ''_'' # suffix, ext)" and n2: "CHR ''/'' \<notin> set ?n2"
    by simp_all
  show ?thesis
  proof (cases out_dir)
    case None
    have r: "mk_filename None filename suffix = D @ ?n2"
      unfolding f using D n sp' b by (rule mk_filename_None)
    have "mk_filename None (D @ ?n2) suffix = D @ ?n2"
      using D n2 sp2 s(1) by (rule mk_filename_None)
    with r None show ?thesis by simp
  next
    case (Some d)
    have r: "mk_filename (Some d) filename suffix = join_dir d @ ?n2"
      using tail n sp' b by (rule mk_filename_Some)
    have t2: "snd (path_split (join_dir d @ ?n2)) = ?n2"
      using dir_prefix_join_dir n2 by (rule path_split_tail)
    have "mk_filename (Some d) (join_dir d @ ?n2) suffix = join_dir d @ ?n2"
      using t2 n2 sp2 s(1) by (rule mk_filename_Some)
    with r Some show ?thesis by simp
  qed
qed

theorem mk_filename_idempotent_witness:
  "CHR ''_'' \<notin> set ''psfsub'' \<and> CHR ''.'' \<notin> set ''psfsub'' \<and> CHR ''/'' \<notin> set ''psfsub''
   \<and> CHR ''_'' \<in> set (fst (splitext (snd (path_split ''data/t1_calints.fits''))))
   \<and> mk_filename (Some ''/tmp/out'')
         (mk_filename (Some ''/tmp/out'') ''data/t1_calints.fits'' ''psfsub'') ''psfsub''
       = mk_filename (Some ''/tmp/out'') ''data/t1_calints.fits'' ''psfsub''"
proof -
  have h1: "CHR ''_'' \<notin> set ''psfsub''" by simp
  have h2: "CHR ''.'' \<notin> set ''psfsub''" by simp
  have h3: "CHR ''/'' \<notin> set ''psfsub''" by simp
  have h4: "CHR ''_'' \<in> set (fst (splitext (snd (path_split ''data/t1_calints.fits''))))"
    by code_simp
  show ?thesis
    using h1 h2 h3 h4
      mk_filename_idempotent [OF h1 h2 h3 h4, of "Some ''/tmp/out''"]
    by blast
qed

text \<open>
  C9, as stated: when the base name of the input path, extension removed, contains no
  underscore, \<^verbatim>\<open>rfind\<close> returns \<open>-1\<close> and the result is the base name without its last
  character, followed by an underscore, the suffix and the extension.  This fails: the
  search runs over the whole path.  For \<^verbatim>\<open>my_dir/target.fits\<close>, whose base name
  \<^verbatim>\<open>target\<close> has no underscore, \<^verbatim>\<open>rfind\<close> returns 2 and the result is
  \<^verbatim>\<open>my_psfalign.fits\<close>.
\<close>

theorem mk_filename_cuts_at_directory_underscore:
  "snd (path_split ''my_dir/target.fits'') = ''target.fits''
   \<and> fst (splitext ''target.fits'') = ''target''
   \<and> CHR ''_'' \<notin> set ''target''
   \<and> rfind (fst (splitext ''my_dir/target.fits'')) CHR ''_'' = 2
   \<and> mk_filename None ''my_dir/target.fits'' ''psfalign'' = ''my_psfalign.fits''
   \<and> mk_filename None ''my_dir/target.fits'' ''psfalign'' \<noteq> ''my_dir/targe_psfalign.fits''
   \<and> mk_filename None ''my_dir/target.fits'' ''psfalign'' \<noteq> ''targe_psfalign.fits''"
  by code_simp

text \<open>
  C9, amended: when the path handed to \<^verbatim>\<open>os.path.splitext\<close> (the input path, or, with an
  output directory, that directory joined with the file name of the input), extension
  removed, contains no underscore anywhere, directories included, \<^verbatim>\<open>rfind\<close> returns
  \<open>-1\<close>, nothing raises, and the result is that path without its last character,
  followed by an underscore, the suffix and the extension.
\<close>

theorem mk_filename_no_underscore:
  assumes "splitext (case out_dir of None \<Rightarrow> filename
                       | Some d \<Rightarrow> path_join d (snd (path_split filename))) = (base, ext)"
    and "CHR ''_'' \<notin> set base"
  shows "rfind base CHR ''_'' = - 1
       \<and> mk_filename out_dir filename suffix = butlast base @ ''_'' @ suffix @ ext"
proof -
  from assms(2) have r: "rfind base CHR ''_'' = - 1" by (rule rfind_notin)
  then have "slice_to base (rfind base CHR ''_'') = butlast base"
    by (simp add: slice_to_minus1)
  with assms(1) r show ?thesis by (simp add: mk_filename_def)
qed

theorem mk_filename_no_underscore_witness:
  "splitext (case None of None \<Rightarrow> ''data/target.fits''
               | Some d \<Rightarrow> path_join d (snd (path_split ''data/target.fits'')))
     = (''data/target'', ''.fits'')
   \<and> CHR ''_'' \<notin> set ''data/target''
   \<and> rfind ''data/target'' CHR ''_'' = - 1
   \<and> mk_filename None ''data/target.fits'' ''psfalign''
       = butlast ''data/target'' @ ''_'' @ ''psfalign'' @ ''.fits''"
proof -
  have h1: "splitext (case None of None \<Rightarrow> ''data/target.fits''
               | Some d \<Rightarrow> path_join d (snd (path_split ''data/target.fits'')))
     = (''data/target'', ''.fits'')"
    by code_simp
  have h2: "CHR ''_'' \<notin> set ''data/target''" by simp
  show ?thesis
    using h1 h2 mk_filename_no_underscore [OF h1 h2, of "''psfalign''"] by blast
qed


section \<open>Claims about the partition and the early exits\<close>

text \<open>
  C6: partitioning classifies each member of the first product by its exposure type
  compared without regard to case (exposure types are strings of 8-bit characters, of
  which \<^verbatim>\<open>str.upper\<close> changes the 26 ASCII letters): the file names of the members
  whose tag reads PSF in any mix of cases, and of those whose tag reads SCIENCE, are
  collected in member order, and a member with any other tag goes to neither list; no
  tag makes the loop fail.  The right-hand side is the partition of the specification,
  whose comparison is defined letter by letter and not through \<^verbatim>\<open>upper\<close>.
\<close>

theorem partition_members_refines_spec:
  "partition_members ms [] [] = partition_spec ms"
  by (simp add: partition_members_acc partition_spec_def upper_eq_PSF upper_eq_SCIENCE)

text \<open>
  C4: when the first product has no PSF member, or no SCIENCE member, \<^verbatim>\<open>process\<close>
  returns normally and its trace is empty: no collaborator is invoked and nothing is
  saved.
\<close>

theorem process_aborts_on_empty_partition:
  assumes "products asn = prd # rest"
    and "filter (\<lambda>m. upper (exptype m) = ''PSF'') (members prd) = []
         \<or> filter (\<lambda>m. upper (exptype m) = ''SCIENCE'') (members prd) = []"
  shows "process env asn = ([], Inr ())"
  using assms by (auto simp: process_def partition_members_acc)

theorem process_aborts_on_empty_partition_witness:
  "products science_only_asn
     = \<lparr>name = ''jw002'', members = [\<lparr>exptype = ''SCIENCE'', expname = ''t1_calints.fits''\<rparr>]\<rparr> # []
   \<and> (filter (\<lambda>m. upper (exptype m) = ''PSF'')
         (members \<lparr>name = ''jw002'', members = [\<lparr>exptype = ''SCIENCE'', expname = ''t1_calints.fits''\<rparr>]\<rparr>) = []
      \<or> filter (\<lambda>m. upper (exptype m) = ''SCIENCE'')
         (members \<lparr>name = ''jw002'', members = [\<lparr>exptype = ''SCIENCE'', expname = ''t1_calints.fits''\<rparr>]\<rparr>) = [])
   \<and> process sample_env science_only_asn = ([], Inr ())
   \<and> products psf_only_asn
     = \<lparr>name = ''jw004'', members = [\<lparr>exptype = ''psf'', expname = ''ref_calints.fits''\<rparr>]\<rparr> # []
   \<and> filter (\<lambda>m. upper (exptype m) = ''PSF'')
         (members \<lparr>name = ''jw004'', members = [\<lparr>exptype = ''psf'', expname = ''ref_calints.fits''\<rparr>]\<rparr>) \<noteq> []
   \<and> filter (\<lambda>m. upper (exptype m) = ''SCIENCE'')
         (members \<lparr>name = ''jw004'', members = [\<lparr>exptype = ''psf'', expname = ''ref_calints.fits''\<rparr>]\<rparr>) = []
   \<and> process sample_env psf_only_asn = ([], Inr ())"
proof -
  let ?prd = "\<lparr>name = ''jw002'', members = [\<lparr>exptype = ''SCIENCE'', expname = ''t1_calints.fits''\<rparr>]\<rparr>"
  let ?prd' = "\<lparr>name = ''jw004'', members = [\<lparr>exptype = ''psf'', expname = ''ref_calints.fits''\<rparr>]\<rparr>"
  have h1: "products science_only_asn = ?prd # []"
    by (simp add: science_only_asn_def)
  have h2: "filter (\<lambda>m. upper (exptype m) = ''PSF'') (members ?prd) = []
         \<or> filter (\<lambda>m. upper (exptype m) = ''SCIENCE'') (members ?prd) = []"
    by (simp add: upper_SCIENCE)
  have k1: "products psf_only_asn = ?prd' # []"
    by (simp add: psf_only_asn_def)
  have k2: "filter (\<lambda>m. upper (exptype m) = ''PSF'') (members ?prd') \<noteq> []"
    by (simp add: upper_def upper_char_def)
  have k3: "filter (\<lambda>m. upper (exptype m) = ''SCIENCE'') (members ?prd') = []"
    by (simp add: upper_def upper_char_def)
  have k4: "filter (\<lambda>m. upper (exptype m) = ''PSF'') (members ?prd') = []
         \<or> filter (\<lambda>m. upper (exptype m) = ''SCIENCE'') (members ?prd') = []"
    using k3 by (rule disjI2)
  show ?thesis
    by (intro conjI h1 h2 k1 k2 k3
        process_aborts_on_empty_partition [OF h1 h2, of sample_env]
        process_aborts_on_empty_partition [OF k1 k4, of sample_env])
qed

text \<open>
  C10: when the association has no product, \<^verbatim>\<open>process\<close> raises \<^verbatim>\<open>IndexError\<close> at the
  lookup of the first product, before any member is partitioned and before any
  collaborator is invoked or anything is saved; this is not the normal return of the
  empty-partition exits.
\<close>

theorem process_raises_without_product:
  assumes "products asn = []"
  shows "process env asn = ([], Inl IndexError)"
  using assms by (simp add: process_def)

theorem process_raises_without_product_witness:
  "products \<lparr>products = []\<rparr> = []
   \<and> process sample_env \<lparr>products = []\<rparr> = ([], Inl IndexError)"
proof -
  have h: "products \<lparr>products = []\<rparr> = []" by simp
  show ?thesis using h process_raises_without_product [OF h, of sample_env] by blast
qed

section \<open>Claim about the split into planes\<close>

text \<open>
  C5: for a subtraction result with \<open>K\<close> planes in the leading dimension of \<^verbatim>\<open>data\<close>
  (and an \<^verbatim>\<open>err\<close> and a \<^verbatim>\<open>dq\<close> plane for each of them), the split loop returns exactly
  \<open>K\<close> images, in plane order; image \<open>i\<close> carries plane \<open>i\<close> of \<^verbatim>\<open>data\<close>, \<^verbatim>\<open>err\<close> and
  \<^verbatim>\<open>dq\<close>, every metadata attribute of the subtraction result, and the subtraction
  result's WCS itself.
\<close>

theorem split_planes_builds_one_image_per_plane:
  assumes "length (data psf_sub) = K"
    and "K \<le> length (err psf_sub)" and "K \<le> length (dq psf_sub)"
  shows "\<exists>images. split_planes env psf_sub 0 [] = Inr images
           \<and> length images = K
           \<and> map data images = data psf_sub
           \<and> map err images = take K (err psf_sub)
           \<and> map dq images = take K (dq psf_sub)
           \<and> list_all (\<lambda>img. wcs img = wcs psf_sub
                 \<and> (\<forall>k v. meta psf_sub k = Some v \<longrightarrow> meta img k = Some v)) images"
proof -
  let ?images = "map (plane_image env psf_sub) [0..<K]"
  have "split_planes env psf_sub 0 [] = Inr ([] @ map (plane_image env psf_sub) [0..<length (data psf_sub)])"
    using assms by (intro split_planes_from) simp_all
  then have 1: "split_planes env psf_sub 0 [] = Inr ?images" using assms(1) by simp
  have 2: "length ?images = K" by simp
  have 3: "map data ?images = data psf_sub"
    using assms(1) by (intro nth_equalityI) (simp_all add: plane_image_def)
  have 4: "map err ?images = take K (err psf_sub)"
    using assms(2) by (intro nth_equalityI) (simp_all add: plane_image_def)
  have 5: "map dq ?images = take K (dq psf_sub)"
    using assms(3) by (intro nth_equalityI) (simp_all add: plane_image_def)
  have 6: "list_all (\<lambda>img. wcs img = wcs psf_sub
                 \<and> (\<forall>k v. meta psf_sub k = Some v \<longrightarrow> meta img k = Some v)) ?images"
    by (simp add: list_all_iff plane_image_def)
  from 1 2 3 4 5 6 show ?thesis by blast
qed

theorem split_planes_builds_one_image_per_plane_witness:
  "length (data sample_cube) = 2 \<and> 2 \<le> length (err sample_cube) \<and> 2 \<le> length (dq sample_cube)
   \<and> (\<exists>images. split_planes sample_env sample_cube 0 [] = Inr images
           \<and> length images = 2
           \<and> map data images = data sample_cube
           \<and> map err images = take 2 (err sample_cube)
           \<and> map dq images = take 2 (dq sample_cube)
           \<and> list_all (\<lambda>img. wcs img = wcs sample_cube
                 \<and> (\<forall>k v. meta sample_cube k = Some v \<longrightarrow> meta img k = Some v)) images)"
proof -
  have h1: "length (data sample_cube) = 2" by (simp add: sample_cube_def)
  have h2: "2 \<le> length (err sample_cube)" by (simp add: sample_cube_def)
  have h3: "2 \<le> length (dq sample_cube)" by (simp add: sample_cube_def)
  show ?thesis
    using h1 h2 h3 split_planes_builds_one_image_per_plane [OF h1 h2 h3, of sample_env] by blast
qed


section \<open>Claims about a whole run\<close>

text \<open>
  The theorems of this section are about runs in which every collaborator returns
  (\<open>collaborators_return\<close>), on an association whose first product has at least one
  PSF member and at least one SCIENCE member; \<open>targ_files\<close> are the file names of the
  SCIENCE members, in order.
\<close>

text \<open>
  C3: such a run returns normally and saves the PSF stack once, then, for each SCIENCE
  member in order, its aligned PSF and its subtraction result, then the final product
  once: exactly one final save and exactly \<open>1 + 2 * N\<close> intermediate saves, \<open>N\<close> being
  the number of SCIENCE members.
\<close>

theorem process_saves_once_per_product:
  assumes "collaborators_return env"
    and "products asn = prd # rest"
    and "partition_members (members prd) [] [] = (psf_files, targ_files)"
    and "psf_files \<noteq> []" and "targ_files \<noteq> []"
  shows "\<exists>tr. process env asn = (tr, Inr ())
           \<and> map fst (saves tr)
               = Psf_stack # concat (map (\<lambda>j. [Psf_aligned j, Psf_sub j]) [0..<length targ_files])
                 @ [Result]
           \<and> length (filter (\<lambda>x. x = Result) (map fst (saves tr))) = 1
           \<and> length (filter (\<lambda>x. x \<noteq> Result) (map fst (saves tr))) = 1 + 2 * length targ_files"
proof -
  let ?tr = "run_events env prd psf_files targ_files"
  have 1: "process env asn = (?tr, Inr ())" using assms by (rule process_ok)
  have 2: "map fst (saves ?tr)
      = Psf_stack # concat (map (\<lambda>j. [Psf_aligned j, Psf_sub j]) [0..<length targ_files]) @ [Result]"
    by (rule saved_objects_run_events)
  have 3: "length (filter (\<lambda>x. x = Result) (map fst (saves ?tr))) = 1"
    unfolding 2 by (simp add: filter_pairs_Result)
  have 4: "length (filter (\<lambda>x. x \<noteq> Result) (map fst (saves ?tr))) = 1 + 2 * length targ_files"
    unfolding 2 by (simp add: filter_pairs_not_Result length_pairs)
  show ?thesis by (rule exI[of _ ?tr]) (intro conjI 1 2 3 4)
qed

theorem process_saves_once_per_product_witness:
  "collaborators_return sample_env
   \<and> products sample_asn = sample_product # []
   \<and> partition_members (members sample_product) [] []
       = ([''ref_calints.fits''], [''a/t1_calints.fits'', ''t2_calints.fits''])
   \<and> [''ref_calints.fits''] \<noteq> []
   \<and> [''a/t1_calints.fits'', ''t2_calints.fits''] \<noteq> []
   \<and> (\<exists>tr. process sample_env sample_asn = (tr, Inr ())
           \<and> map fst (saves tr)
               = Psf_stack # concat (map (\<lambda>j. [Psf_aligned j, Psf_sub j])
                     [0..<length [''a/t1_calints.fits'', ''t2_calints.fits'']])
                 @ [Result]
           \<and> length (filter (\<lambda>x. x = Result) (map fst (saves tr))) = 1
           \<and> length (filter (\<lambda>x. x \<noteq> Result) (map fst (saves tr)))
               = 1 + 2 * length [''a/t1_calints.fits'', ''t2_calints.fits''])"
proof -
  have h4: "[''ref_calints.fits''] \<noteq> []" by simp
  have h5: "[''a/t1_calints.fits'', ''t2_calints.fits''] \<noteq> []" by simp
  show ?thesis
    by (intro conjI sample_env_returns sample_products sample_partition h4 h5
        process_saves_once_per_product
          [OF sample_env_returns sample_products sample_partition h4 h5])
qed

text \<open>
  C1, as stated: outlier detection is invoked exactly once, on the full accumulated
  collection after all target iterations have appended their images.  This fails: the
  call is inside the target loop.  On the sample association, with two SCIENCE members
  whose subtraction results have two planes each, outlier detection is invoked twice,
  on two images each time, and \<^verbatim>\<open>resample\<close> once, on four images.
\<close>

theorem outlier_detection_not_once_on_full_collection:
  "snd (process sample_env sample_asn) = Inr ()
   \<and> map length (outlier_calls (fst (process sample_env sample_asn))) = [2, 2]
   \<and> map length (resample_calls (fst (process sample_env sample_asn))) = [4]"
  by code_simp

text \<open>
  C1, amended: outlier detection is invoked once per SCIENCE member, in member order,
  each time on the images split from that member's subtraction result; \<^verbatim>\<open>resample\<close> is
  invoked exactly once, after the loop, on the concatenation, in member order, of the
  collections that the outlier-detection calls returned; the save and the release of
  the final product follow it.
\<close>

theorem outlier_detection_per_target_resample_once:
  assumes "collaborators_return env"
    and "products asn = prd # rest"
    and "partition_members (members prd) [] [] = (psf_files, targ_files)"
    and "psf_files \<noteq> []" and "targ_files \<noteq> []"
  shows "\<exists>pre p. process env asn
             = (pre @ [Resample (concat (map (\<lambda>ims. projr (outlier_detection env ims))
                                           (outlier_calls pre))),
                       Save Result p, Close Result], Inr ())
           \<and> resample_calls pre = []
           \<and> length (outlier_calls pre) = length targ_files
           \<and> map fst (klip_calls pre) = targ_files
           \<and> outlier_calls pre
               = map (\<lambda>(tf, a). projr (split_planes env (projr (klip env tf a)) 0 []))
                   (klip_calls pre)"
proof -
  let ?pre = "before_resample env prd psf_files targ_files"
  let ?p = "product_file env prd ''coroncmb''"
  let ?st = "stack_of env psf_files"
  have oc: "outlier_calls ?pre = map (planes_of env ?st) targ_files"
    by (rule outlier_calls_before_resample)
  have kc: "klip_calls ?pre = map (\<lambda>tf. (tf, aligned_of env ?st tf)) targ_files"
    by (rule klip_calls_before_resample)
  have ri: "resample_input_of env psf_files targ_files
      = concat (map (\<lambda>ims. projr (outlier_detection env ims)) (outlier_calls ?pre))"
    unfolding oc by (simp add: resample_input_of_def branch_result_def[abs_def] comp_def)
  have "process env asn = (run_events env prd psf_files targ_files, Inr ())"
    using assms by (rule process_ok)
  then have 1: "process env asn
             = (?pre @ [Resample (concat (map (\<lambda>ims. projr (outlier_detection env ims))
                                           (outlier_calls ?pre))),
                       Save Result ?p, Close Result], Inr ())"
    unfolding run_events_split ri .
  have 2: "resample_calls ?pre = []" by (rule resample_calls_before_resample)
  have 3: "length (outlier_calls ?pre) = length targ_files" unfolding oc by simp
  have 4: "map fst (klip_calls ?pre) = targ_files" unfolding kc by (simp add: comp_def)
  have 5: "outlier_calls ?pre
               = map (\<lambda>(tf, a). projr (split_planes env (projr (klip env tf a)) 0 []))
                   (klip_calls ?pre)"
    unfolding oc kc by (simp add: comp_def planes_of_def sub_of_def)
  show ?thesis
    by (rule exI[of _ ?pre], rule exI[of _ ?p]) (intro conjI 1 2 3 4 5)
qed

theorem outlier_detection_per_target_resample_once_witness:
  "collaborators_return sample_env
   \<and> products sample_asn = sample_product # []
   \<and> partition_members (members sample_product) [] []
       = ([''ref_calints.fits''], [''a/t1_calints.fits'', ''t2_calints.fits''])
   \<and> [''ref_calints.fits''] \<noteq> []
   \<and> [''a/t1_calints.fits'', ''t2_calints.fits''] \<noteq> []
   \<and> (\<exists>pre p. process sample_env sample_asn
             = (pre @ [Resample (concat (map (\<lambda>ims. projr (outlier_detection sample_env ims))
                                           (outlier_calls pre))),
                       Save Result p, Close Result], Inr ())
           \<and> resample_calls pre = []
           \<and> length (outlier_calls pre) = length [''a/t1_calints.fits'', ''t2_calints.fits'']
           \<and> map fst (klip_calls pre) = [''a/t1_calints.fits'', ''t2_calints.fits'']
           \<and> outlier_calls pre
               = map (\<lambda>(tf, a). projr (split_planes sample_env (projr (klip sample_env tf a)) 0 []))
                   (klip_calls pre))"
proof -
  have h4: "[''ref_calints.fits''] \<noteq> []" by simp
  have h5: "[''a/t1_calints.fits'', ''t2_calints.fits''] \<noteq> []" by simp
  show ?thesis
    by (intro conjI sample_env_returns sample_products sample_partition h4 h5
        outlier_detection_per_target_resample_once
          [OF sample_env_returns sample_products sample_partition h4 h5])
qed

text \<open>
  C2, as stated: every large container is released exactly once, among them the stacked
  PSF and each subtraction result.  This fails: on the sample association the stacked
  PSF and the subtraction results are saved, and the run ends without releasing them.
\<close>

theorem psf_stack_and_psf_sub_never_released:
  "snd (process sample_env sample_asn) = Inr ()
   \<and> map fst (saves (fst (process sample_env sample_asn)))
       = [Psf_stack, Psf_aligned 0, Psf_sub 0, Psf_aligned 1, Psf_sub 1, Result]
   \<and> closes (fst (process sample_env sample_asn))
       = [Psf_input 0, Psf_models, Psf_aligned 0, Psf_aligned 1, Result]
   \<and> Psf_stack \<notin> set (closes (fst (process sample_env sample_asn)))
   \<and> Psf_sub 0 \<notin> set (closes (fst (process sample_env sample_asn)))"
  by code_simp

text \<open>
  C2, amended: no model is released twice; each opened PSF input, the container of PSF
  inputs, each aligned PSF and the final product are released exactly once.  For each
  target, the aligned PSF (what \<^verbatim>\<open>align_refs\<close> returned for that target and the PSF
  stack) is saved under the \<^verbatim>\<open>psfalign\<close> name, then handed to \<^verbatim>\<open>klip\<close>, then
  released; the final product (what \<^verbatim>\<open>resample\<close> returned) is saved and then released,
  as the last two events of the run.  Here \<open>stack_of env psf_files\<close> is what
  \<^verbatim>\<open>stack_refs\<close> returned for the opened PSF inputs.
\<close>

theorem released_exactly_once:
  assumes "collaborators_return env"
    and "products asn = prd # rest"
    and "partition_members (members prd) [] [] = (psf_files, targ_files)"
    and "psf_files \<noteq> []" and "targ_files \<noteq> []"
  shows "\<exists>tr. process env asn = (tr, Inr ())
           \<and> distinct (closes tr)
           \<and> Psf_input ` {..<length psf_files} \<subseteq> set (closes tr)
           \<and> Psf_models \<in> set (closes tr)
           \<and> Psf_aligned ` {..<length targ_files} \<subseteq> set (closes tr)
           \<and> Result \<in> set (closes tr)
           \<and> list_all (\<lambda>j. \<exists>pre post.
                 tr = pre @ [Align_refs (targ_files ! j) (stack_of env psf_files),
                             Save (Psf_aligned j)
                               (mk_filename (output_dir env) (targ_files ! j) ''psfalign''),
                             Klip (targ_files ! j)
                               (projr (align_refs env (targ_files ! j) (stack_of env psf_files))),
                             Close (Psf_aligned j)] @ post)
               [0..<length targ_files]
           \<and> (\<exists>pre result_file.
                 tr = pre @ [Resample (concat (map (\<lambda>ims. projr (outlier_detection env ims))
                                                 (outlier_calls pre))),
                             Save Result result_file, Close Result])"
proof -
  let ?tr = "run_events env prd psf_files targ_files"
  have 1: "process env asn = (?tr, Inr ())" using assms by (rule process_ok)
  have c: "closes ?tr = map Psf_input [0..<length psf_files] @ [Psf_models]
       @ map Psf_aligned [0..<length targ_files] @ [Result]"
    by (rule closes_run_events)
  have 2: "distinct (closes ?tr)" unfolding c by (rule distinct_released)
  have 3: "Psf_input ` {..<length psf_files} \<subseteq> set (closes ?tr)"
    unfolding c by (auto simp: lessThan_atLeast0)
  have 4: "Psf_models \<in> set (closes ?tr)" unfolding c by simp
  have 5: "Psf_aligned ` {..<length targ_files} \<subseteq> set (closes ?tr)"
    unfolding c by (auto simp: lessThan_atLeast0)
  have 6: "Result \<in> set (closes ?tr)" unfolding c by simp
  have 7: "list_all (\<lambda>j. \<exists>pre post.
                 ?tr = pre @ [Align_refs (targ_files ! j) (stack_of env psf_files),
                             Save (Psf_aligned j)
                               (mk_filename (output_dir env) (targ_files ! j) ''psfalign''),
                             Klip (targ_files ! j)
                               (projr (align_refs env (targ_files ! j) (stack_of env psf_files))),
                             Close (Psf_aligned j)] @ post)
               [0..<length targ_files]"
    unfolding list_all_iff
  proof
    fix j assume "j \<in> set [0..<length targ_files]"
    then have "j < length targ_files" by simp
    from run_events_around_klip[OF this, of env prd psf_files]
    show "\<exists>pre post.
                 ?tr = pre @ [Align_refs (targ_files ! j) (stack_of env psf_files),
                             Save (Psf_aligned j)
                               (mk_filename (output_dir env) (targ_files ! j) ''psfalign''),
                             Klip (targ_files ! j)
                               (projr (align_refs env (targ_files ! j) (stack_of env psf_files))),
                             Close (Psf_aligned j)] @ post"
      by blast
  qed
  let ?pre = "before_resample env prd psf_files targ_files"
  have oc: "outlier_calls ?pre = map (planes_of env (stack_of env psf_files)) targ_files"
    by (rule outlier_calls_before_resample)
  have ri: "resample_input_of env psf_files targ_files
      = concat (map (\<lambda>ims. projr (outlier_detection env ims)) (outlier_calls ?pre))"
    unfolding oc by (simp add: resample_input_of_def branch_result_def[abs_def] comp_def)
  have "?tr = ?pre @ [Resample (concat (map (\<lambda>ims. projr (outlier_detection env ims))
                                                 (outlier_calls ?pre))),
                      Save Result (product_file env prd ''coroncmb''), Close Result]"
    unfolding run_events_split ri ..
  then have 8: "\<exists>pre result_file.
                 ?tr = pre @ [Resample (concat (map (\<lambda>ims. projr (outlier_detection env ims))
                                                 (outlier_calls pre))),
                             Save Result result_file, Close Result]"
    by blast
  show ?thesis by (rule exI[of _ ?tr]) (intro conjI 1 2 3 4 5 6 7 8)
qed

theorem released_exactly_once_witness:
  "collaborators_return sample_env
   \<and> products sample_asn = sample_product # []
   \<and> partition_members (members sample_product) [] []
       = ([''ref_calints.fits''], [''a/t1_calints.fits'', ''t2_calints.fits''])
   \<and> [''ref_calints.fits''] \<noteq> []
   \<and> [''a/t1_calints.fits'', ''t2_calints.fits''] \<noteq> []
   \<and> (\<exists>tr. process sample_env sample_asn = (tr, Inr ())
           \<and> distinct (closes tr)
           \<and> Psf_input ` {..<length [''ref_calints.fits'']} \<subseteq> set (closes tr)
           \<and> Psf_models \<in> set (closes tr)
           \<and> Psf_aligned ` {..<length [''a/t1_calints.fits'', ''t2_calints.fits'']}
               \<subseteq> set (closes tr)
           \<and> Result \<in> set (closes tr)
           \<and> list_all (\<lambda>j. \<exists>pre post.
                 tr = pre @ [Align_refs ([''a/t1_calints.fits'', ''t2_calints.fits''] ! j)
                               (stack_of sample_env [''ref_calints.fits'']),
                             Save (Psf_aligned j)
                               (mk_filename (output_dir sample_env)
                                  ([''a/t1_calints.fits'', ''t2_calints.fits''] ! j) ''psfalign''),
                             Klip ([''a/t1_calints.fits'', ''t2_calints.fits''] ! j)
                               (projr (align_refs sample_env
                                  ([''a/t1_calints.fits'', ''t2_calints.fits''] ! j)
                                  (stack_of sample_env [''ref_calints.fits'']))),
                             Close (Psf_aligned j)] @ post)
               [0..<length [''a/t1_calints.fits'', ''t2_calints.fits'']]
           \<and> (\<exists>pre result_file.
                 tr = pre @ [Resample (concat (map (\<lambda>ims. projr (outlier_detection sample_env ims))
                                                 (outlier_calls pre))),
                             Save Result result_file, Close Result]))"
proof -
  have h4: "[''ref_calints.fits''] \<noteq> []" by simp
  have h5: "[''a/t1_calints.fits'', ''t2_calints.fits''] \<noteq> []" by simp
  show ?thesis
    by (intro conjI sample_env_returns sample_products sample_partition h4 h5
        released_exactly_once
          [OF sample_env_returns sample_products sample_partition h4 h5])
qed




end
